theory Spec2Isabelle
  imports Main "HOL-Library.Sublist" "HOL-Library.List_Lexorder" "HOL-Library.Char_ord"
begin

section \<open>Text and characters\<close>

text \<open>
  A Python \<^verbatim>\<open>str\<close> is modelled as a \<^typ>\<open>string\<close>: a list of code points below 256
  (the Latin-1 range). The character classes below are those of CPython for that range.

  \<^verbatim>\<open>str.isspace\<close>, which is also what \<^verbatim>\<open>str.strip()\<close> removes and what \<^verbatim>\<open>\s\<close> matches in
  a \<^verbatim>\<open>str\<close> pattern: TAB, LF, VT, FF, CR, FS, GS, RS, US, SPACE, NEL (0x85), NBSP (0xA0).
\<close>

definition is_space :: "char \<Rightarrow> bool" where
  "is_space c = (c \<in> {CHR 0x09, CHR 0x0A, CHR 0x0B, CHR 0x0C, CHR 0x0D,
                       CHR 0x1C, CHR 0x1D, CHR 0x1E, CHR 0x1F, CHR 0x20, CHR 0x85, CHR 0xA0})"

text \<open>
  The word characters of \<^verbatim>\<open>\w\<close> and \<^verbatim>\<open>\b\<close>: alphanumeric code points and the underscore. Below
  256 these are the ASCII digits and letters, the underscore, the letters of Latin-1
  (0xAA, 0xB5, 0xBA, 0xC0-0xD6, 0xD8-0xF6, 0xF8-0xFF), the superscript digits
  (0xB2, 0xB3, 0xB9) and the vulgar fractions (0xBC-0xBE).
\<close>

definition is_word :: "char \<Rightarrow> bool" where
  "is_word c = (let n = (of_char c :: nat) in
     (48 \<le> n \<and> n \<le> 57) \<or> (65 \<le> n \<and> n \<le> 90) \<or> n = 95 \<or> (97 \<le> n \<and> n \<le> 122) \<or>
     n = 170 \<or> n = 178 \<or> n = 179 \<or> n = 181 \<or> n = 185 \<or> n = 186 \<or>
     (188 \<le> n \<and> n \<le> 190) \<or> (192 \<le> n \<and> n \<le> 214) \<or> (216 \<le> n \<and> n \<le> 246) \<or>
     (248 \<le> n \<and> n \<le> 255))"

text \<open>The class \<^verbatim>\<open>[a-z0-9_]\<close> under \<^verbatim>\<open>re.I\<close>: below 256 only the ASCII letters fold into a-z.\<close>

definition is_ident :: "char \<Rightarrow> bool" where
  "is_ident c = (let n = (of_char c :: nat) in
     (48 \<le> n \<and> n \<le> 57) \<or> (65 \<le> n \<and> n \<le> 90) \<or> n = 95 \<or> (97 \<le> n \<and> n \<le> 122))"

text \<open>\<^verbatim>\<open>s.strip()\<close>: leading and trailing white space removed.\<close>

definition py_strip :: "string \<Rightarrow> string" where
  "py_strip s = rev (dropWhile is_space (rev (dropWhile is_space s)))"

text \<open>\<^verbatim>\<open>s.endswith(t)\<close> and \<^verbatim>\<open>t in s\<close>.\<close>

definition endswith :: "string \<Rightarrow> string \<Rightarrow> bool" where
  "endswith s t = suffix t s"

fun py_in :: "string \<Rightarrow> string \<Rightarrow> bool" where
  "py_in t [] = (t = [])"
| "py_in t (c # cs) = (prefix t (c # cs) \<or> py_in t cs)"

section \<open>The regular expressions of the program\<close>

text \<open>
  The fragment of \<^verbatim>\<open>re\<close> the program uses: literals, \<^verbatim>\<open>\b\<close>, a character class repeated
  greedily at least \<open>n\<close> times (\<^verbatim>\<open>\s*\<close>, \<^verbatim>\<open>[^"]+\<close>, \<^verbatim>\<open>\*{2,}\<close>) or lazily (\<^verbatim>\<open>.*?\<close>), capturing groups,
  alternation and concatenation.
\<close>

datatype cls =
    Dot                 \<comment> \<open>\<^verbatim>\<open>.\<close> under \<^verbatim>\<open>re.S\<close>\<close>
  | Only char           \<comment> \<open>one literal character\<close>
  | NotIn "char list"   \<comment> \<open>\<^verbatim>\<open>[^...]\<close>\<close>
  | WhiteSp             \<comment> \<open>\<^verbatim>\<open>\s\<close>\<close>
  | Ident               \<comment> \<open>\<^verbatim>\<open>[a-z0-9_]\<close> under \<^verbatim>\<open>re.I\<close>\<close>

fun cls_mem :: "cls \<Rightarrow> char \<Rightarrow> bool" where
  "cls_mem Dot c = True"
| "cls_mem (Only d) c = (c = d)"
| "cls_mem (NotIn ds) c = (c \<notin> set ds)"
| "cls_mem WhiteSp c = is_space c"
| "cls_mem Ident c = is_ident c"

datatype rx =
    Lit string          \<comment> \<open>literal text\<close>
  | WordB               \<comment> \<open>\<^verbatim>\<open>\b\<close>\<close>
  | Many cls nat        \<comment> \<open>the class, at least \<open>n\<close> times, greedy\<close>
  | Few cls             \<comment> \<open>the class, any number of times, lazy\<close>
  | Grp nat rx          \<comment> \<open>capturing group number \<open>n\<close>\<close>
  | Alt rx rx
  | Cat rx rx

definition seq :: "rx list \<Rightarrow> rx" where
  "seq rs = foldr Cat rs (Lit [])"

text \<open>
  A matcher state: the character before the current position (for \<^verbatim>\<open>\b\<close>), the text from
  the current position on, and the groups captured so far (latest first).
\<close>

type_synonym mstate = "char option \<times> string \<times> (nat \<times> string) list"

fun eat :: "string \<Rightarrow> mstate \<Rightarrow> mstate list" where
  "eat [] st = [st]"
| "eat (c # cs) (p, [], g) = []"
| "eat (c # cs) (p, x # xs, g) = (if c = x then eat cs (Some x, xs, g) else [])"

text \<open>
  The states after consuming 0, 1, 2, ... characters of the class, shortest first.
\<close>

fun run :: "cls \<Rightarrow> mstate \<Rightarrow> mstate list" where
  "run c (p, [], g) = [(p, [], g)]"
| "run c (p, x # xs, g) = (p, x # xs, g) # (if cls_mem c x then run c (Some x, xs, g) else [])"

definition word_opt :: "char option \<Rightarrow> bool" where
  "word_opt p = (case p of None \<Rightarrow> False | Some c \<Rightarrow> is_word c)"

definition next_char :: "string \<Rightarrow> char option" where
  "next_char s = (case s of [] \<Rightarrow> None | c # _ \<Rightarrow> Some c)"

definition capture :: "nat \<Rightarrow> string \<Rightarrow> mstate \<Rightarrow> mstate" where
  "capture n s st = (case st of (p', s', g') \<Rightarrow>
     (p', s', (n, take (length s - length s') s) # g'))"

text \<open>
  All the ways the expression matches at the current position, in the order a backtracking
  matcher tries them: the first element is the match \<^verbatim>\<open>re\<close> reports.
\<close>

fun matches :: "rx \<Rightarrow> mstate \<Rightarrow> mstate list" where
  "matches (Lit t) st = eat t st"
| "matches WordB (p, s, g) = (if word_opt p \<noteq> word_opt (next_char s) then [(p, s, g)] else [])"
| "matches (Many c n) st = rev (drop n (run c st))"
| "matches (Few c) st = run c st"
| "matches (Grp n r) (p, s, g) = map (capture n s) (matches r (p, s, g))"
| "matches (Alt r1 r2) st = matches r1 st @ matches r2 st"
| "matches (Cat r1 r2) st = concat (map (matches r2) (matches r1 st))"

definition group :: "mstate \<Rightarrow> nat \<Rightarrow> string option" where
  "group st n = map_of (snd (snd st)) n"

text \<open>
  \<^verbatim>\<open>re.finditer\<close>: the matches found scanning from the left, each search starting where the
  previous match ended (one character further after an empty match).
\<close>

function finditer :: "rx \<Rightarrow> char option \<Rightarrow> string \<Rightarrow> mstate list" where
  "finditer r p s =
     (case matches r (p, s, []) of
        [] \<Rightarrow> (case s of [] \<Rightarrow> [] | c # cs \<Rightarrow> finditer r (Some c) cs)
      | m # _ \<Rightarrow>
          m # (if length (fst (snd m)) < length s then finditer r (fst m) (fst (snd m))
               else (case s of [] \<Rightarrow> [] | c # cs \<Rightarrow> finditer r (Some c) cs)))"
  by pat_completeness auto
termination
  by (relation "measure (\<lambda>(r, p, s). length s)") auto

text \<open>\<^verbatim>\<open>re.sub\<close> with a constant replacement.\<close>

function re_sub :: "rx \<Rightarrow> string \<Rightarrow> char option \<Rightarrow> string \<Rightarrow> string" where
  "re_sub r repl p s =
     (case matches r (p, s, []) of
        [] \<Rightarrow> (case s of [] \<Rightarrow> [] | c # cs \<Rightarrow> c # re_sub r repl (Some c) cs)
      | m # _ \<Rightarrow>
          repl @ (if length (fst (snd m)) < length s then re_sub r repl (fst m) (fst (snd m))
                  else (case s of [] \<Rightarrow> [] | c # cs \<Rightarrow> c # re_sub r repl (Some c) cs)))"
  by pat_completeness auto
termination
  by (relation "measure (\<lambda>(r, repl, p, s). length s)") auto

section \<open>Pattern normalisation and code extraction\<close>

text \<open>\<^verbatim>\<open>_STR_RE\<close>: a double-quoted or single-quoted non-empty string.\<close>

definition STR_RE :: rx where
  \<open>STR_RE = Alt (seq [Lit ''"'', Grp 1 (Many (NotIn ''"'') 1), Lit ''"''])
                (seq [Lit [CHR 0x27], Grp 2 (Many (NotIn [CHR 0x27]) 1), Lit [CHR 0x27]])\<close>

definition BRACE_RE :: rx where
  "BRACE_RE = seq [Lit ''{'', Many (NotIn ''}'') 1, Lit ''}'']"

definition STARS_RE :: rx where
  "STARS_RE = Many (Only CHR ''*'') 2"

definition norm_pattern :: "string \<Rightarrow> string" where
  "norm_pattern s =
     (let s = re_sub BRACE_RE ''*'' None s;
          s = re_sub STARS_RE ''*'' None s
      in py_strip s)"

definition with_domain :: "string \<Rightarrow> string" where
  "with_domain code = (if CHR '':'' \<in> set code then code else ''game:'' @ code)"

text \<open>\<^verbatim>\<open>m.group(1) or m.group(2)\<close>, and the test \<^verbatim>\<open>not val\<close>.\<close>

definition py_or :: "string option \<Rightarrow> string option \<Rightarrow> string option" where
  "py_or a b = (case a of None \<Rightarrow> b | Some s \<Rightarrow> if s = [] then b else Some s)"

definition falsy :: "string option \<Rightarrow> bool" where
  "falsy v = (case v of None \<Rightarrow> True | Some s \<Rightarrow> s = [])"

definition CODE_RE :: rx where
  "CODE_RE = seq [WordB, Lit ''code'', Many WhiteSp 0, Lit '':'', Many WhiteSp 0, STR_RE]"

definition PATH_RE :: rx where
  "PATH_RE = seq [WordB, Lit ''code'', Many WhiteSp 0, Lit '':'', Many WhiteSp 0, Lit ''{'',
                  Few (NotIn ''{}''), WordB, Lit ''path'', Many WhiteSp 0, Lit '':'',
                  Many WhiteSp 0, STR_RE]"

definition VARIANTS_RE :: rx where
  "VARIANTS_RE = seq [WordB, Lit ''allowedVariants'', Many WhiteSp 0, Lit '':'', Many WhiteSp 0,
                      Lit ''['', Grp 1 (Few Dot), Lit '']'']"

definition GROUPBY_RE :: rx where
  "GROUPBY_RE = seq [WordB, Lit ''groupBy'', Many WhiteSp 0, Lit '':'', Many WhiteSp 0,
                     Lit ''['', Grp 1 (Few Dot), Lit '']'']"

text \<open>The body of the first loop of \<^verbatim>\<open>_discover_codes_in_text\<close>.\<close>

definition add_code :: "mstate \<Rightarrow> string set \<Rightarrow> string set" where
  "add_code m codes =
     (let val = py_or (group m 1) (group m 2) in
      if falsy val then codes
      else let base = with_domain (norm_pattern (the val));
               codes = insert base codes
           in if \<not> endswith base ''*'' \<and> \<not> py_in ''-*'' base
              then insert (base @ ''-*'') codes else codes)"

text \<open>The body of the second loop, and of the inner loops of the third and fourth.\<close>

definition add_plain :: "mstate \<Rightarrow> string set \<Rightarrow> string set" where
  "add_plain m codes =
     (let val = py_or (group m 1) (group m 2) in
      if falsy val then codes
      else insert (with_domain (norm_pattern (the val))) codes)"

definition add_list :: "mstate \<Rightarrow> string set \<Rightarrow> string set" where
  "add_list m codes =
     (let body = (case py_or (group m 1) (Some []) of None \<Rightarrow> [] | Some b \<Rightarrow> b)
      in fold add_plain (finditer STR_RE None body) codes)"

definition discover_codes_in_text :: "string \<Rightarrow> string set" where
  "discover_codes_in_text text =
     (let codes = {};
          codes = fold add_code (finditer CODE_RE None text) codes;
          codes = fold add_plain (finditer PATH_RE None text) codes;
          codes = fold add_list (finditer VARIANTS_RE None text) codes;
          codes = fold add_list (finditer GROUPBY_RE None text) codes
      in codes)"


section \<open>Ingredients and the wildcard normaliser\<close>

text \<open>The class \<^verbatim>\<open>Ingredient\<close>; \<^verbatim>\<open>symbol\<close> is \<^verbatim>\<open>None\<close> until a letter is assigned.\<close>

record ingredient =
  code :: string
  quantity :: int
  is_tool :: bool
  tool_cost :: int
  symbol :: "string option"
  name :: string
  allowed_variants :: "string list"

text \<open>\<^verbatim>\<open>Ingredient()\<close> with the default arguments of the constructor.\<close>

definition new_ingredient :: ingredient where
  "new_ingredient = \<lparr>code = [], quantity = 1, is_tool = False, tool_cost = 0, symbol = None,
     name = [], allowed_variants = []\<rparr>"

text \<open>\<^verbatim>\<open>s.rstrip("-")\<close>.\<close>

definition rstrip_dash :: "string \<Rightarrow> string" where
  "rstrip_dash s = rev (dropWhile (\<lambda>c. c = CHR ''-'') (rev s))"

text \<open>
  \<^verbatim>\<open>_normalize_wildcard_code\<close>, on an ingredient that exists (the callers pass one). The slice
  \<^verbatim>\<open>code[:-1]\<close> is \<^term>\<open>butlast\<close>.
\<close>

definition normalize_wildcard_code :: "ingredient \<Rightarrow> ingredient" where
  "normalize_wildcard_code ing =
     (if code ing = [] \<or> \<not> endswith (code ing) ''*'' then ing
      else let base = butlast (code ing);
               base = rstrip_dash base
           in if allowed_variants ing \<noteq> [] then ing\<lparr>code := base @ ''-*''\<rparr>
              else ing\<lparr>code := base @ ''*''\<rparr>)"

section \<open>The application state\<close>

text \<open>
  \<^verbatim>\<open>int(s)\<close> for a string, \<^term>\<open>None\<close> when it raises \<^verbatim>\<open>ValueError\<close>: white space around
  the number is skipped (TAB, LF, VT, FF, CR, SPACE, and NEL and NBSP, which \<^verbatim>\<open>int\<close> reads as
  spaces), then come an optional sign and decimal digits, with single underscores allowed
  between digits; more than 4300 digits (the default limit) are refused.
\<close>

definition int_space :: "char \<Rightarrow> bool" where
  "int_space c = (c \<in> {CHR 0x09, CHR 0x0A, CHR 0x0B, CHR 0x0C, CHR 0x0D, CHR 0x20,
                         CHR 0x85, CHR 0xA0})"

definition is_digit :: "char \<Rightarrow> bool" where
  "is_digit c = (48 \<le> (of_char c :: nat) \<and> (of_char c :: nat) \<le> 57)"

definition digits_value :: "string \<Rightarrow> int" where
  "digits_value ds = foldl (\<lambda>v c. 10 * v + (int (of_char c) - 48)) 0 ds"

definition py_int :: "string \<Rightarrow> int option" where
  "py_int s =
     (let t = dropWhile int_space s;
          (neg, u) = (case t of
                        c # cs \<Rightarrow> if c = CHR ''-'' then (True, cs)
                                  else if c = CHR ''+'' then (False, cs) else (False, t)
                      | [] \<Rightarrow> (False, []));
          body = rev (dropWhile int_space (rev u));
          ds = filter (\<lambda>c. c \<noteq> CHR ''_'') body
      in if body = [] \<or> \<not> is_digit (hd body) \<or> \<not> is_digit (last body) \<or> py_in ''__'' body \<or>
            \<not> list_all is_digit ds \<or> 4300 < length ds
         then None
         else Some (if neg then - digits_value ds else digits_value ds))"

text \<open>
  The string methods \<^verbatim>\<open>ch.isalpha()\<close> and \<^verbatim>\<open>ch.upper()\<close>, which the symbol entry applies to
  what the user typed, are parameters of the model: the upper case of a character is a
  string, and for some characters it lies beyond code point 255.
\<close>

record builtins =
  isalpha :: "char \<Rightarrow> bool"
  upper :: "char \<Rightarrow> string"

text \<open>
  The fields of \<^verbatim>\<open>RecipeBuilderApp\<close> that the modelled methods read or write. The grid is
  indexed by (row, column), both below \<^verbatim>\<open>GRID_SIZE\<close>; every slot holds its own
  \<^verbatim>\<open>Ingredient\<close> object or \<^verbatim>\<open>None\<close>. The Tk variables are held by value. \<^verbatim>\<open>errors\<close> records
  the calls of \<^verbatim>\<open>messagebox.showerror\<close> (title, message), oldest first. Labels and canvases
  only display the state and are left out.
\<close>

record app =
  grid_items :: "nat \<times> nat \<Rightarrow> ingredient option"
  selected :: "nat \<times> nat"
  is_tool_var :: bool
  tool_cost_var :: string
  qty_var :: string
  wildcard_var :: bool
  symbol_var :: string
  slot_name_var :: string
  shapeless_var :: bool
  output_code_var :: string
  output_qty_var :: string
  code_to_symbol :: "string \<rightharpoonup> string"
  variant_index :: "string \<rightharpoonup> string set"
  errors :: "(string \<times> string) list"

definition GRID_SIZE :: nat where
  "GRID_SIZE = 3"

text \<open>The slots in the order of the nested \<^verbatim>\<open>range(GRID_SIZE)\<close> loops.\<close>

definition cells :: "(nat \<times> nat) list" where
  "cells = concat (map (\<lambda>r. map (\<lambda>c. (r, c)) [0..<GRID_SIZE]) [0..<GRID_SIZE])"

text \<open>
  \<^verbatim>\<open>_update_variants_summary(ing, options)\<close>, for the ingredient of slot \<open>pos\<close>: when none of
  the allowed variants is among the options the selection is dropped and the code
  normalised again.
\<close>

definition update_variants_summary :: "app \<Rightarrow> nat \<times> nat \<Rightarrow> string list \<Rightarrow> app" where
  "update_variants_summary a pos options =
     (case grid_items a pos of
        None \<Rightarrow> a
      | Some ing \<Rightarrow>
          if allowed_variants ing = [] then a
          else let sel = filter (\<lambda>v. v \<in> set options) (allowed_variants ing)
               in if sel = []
                  then a\<lparr>grid_items := (grid_items a)
                          (pos := Some (normalize_wildcard_code (ing\<lparr>allowed_variants := []\<rparr>)))\<rparr>
                  else a)"

text \<open>The key \<^verbatim>\<open><domain>:<base>-\<close> that \<^verbatim>\<open>_update_variant_ui\<close> looks up.\<close>

definition variant_key :: "string \<Rightarrow> string" where
  "variant_key pfx =
     (if CHR '':'' \<notin> set pfx
      then (if \<not> endswith pfx ''-'' then ''game:'' @ pfx @ ''-'' else ''game:'' @ pfx)
      else (if endswith pfx ''-'' then pfx else pfx @ ''-''))"

definition update_variant_ui :: "app \<Rightarrow> app" where
  "update_variant_ui a =
     (case grid_items a (selected a) of
        None \<Rightarrow> a
      | Some ing \<Rightarrow>
          if code ing = [] then a
          else if \<not> wildcard_var a \<or> \<not> endswith (code ing) ''*'' then a
          else let pfx = butlast (code ing);
                   key = variant_key pfx;
                   options = sorted_list_of_set
                     (case variant_index a key of None \<Rightarrow> {} | Some S \<Rightarrow> S)
               in if options = [] then a
                  else update_variants_summary a (selected a) options)"

text \<open>The wildcard part of \<^verbatim>\<open>_side_apply\<close>, on the ingredient.\<close>

definition apply_wildcard :: "bool \<Rightarrow> ingredient \<Rightarrow> ingredient" where
  "apply_wildcard wildcard ing =
     (if code ing \<noteq> [] then
        (if wildcard then
           normalize_wildcard_code
             (if \<not> endswith (code ing) ''*'' then ing\<lparr>code := code ing @ ''*''\<rparr> else ing)
         else
           (if endswith (code ing) ''*'' then ing\<lparr>code := butlast (code ing)\<rparr> else ing)
             \<lparr>allowed_variants := []\<rparr>)
      else ing)"

definition side_apply :: "app \<Rightarrow> app" where
  "side_apply a =
     (case grid_items a (selected a) of
        None \<Rightarrow> a
      | Some ing \<Rightarrow>
          let ing = ing\<lparr>is_tool := is_tool_var a\<rparr>;
              ing = ing\<lparr>tool_cost :=
                      (case py_int (tool_cost_var a) of None \<Rightarrow> 0 | Some n \<Rightarrow> max 0 n)\<rparr>;
              ing = ing\<lparr>quantity :=
                      (case py_int (qty_var a) of None \<Rightarrow> 1 | Some n \<Rightarrow> max 1 n)\<rparr>;
              ing = apply_wildcard (wildcard_var a) ing;
              a = a\<lparr>grid_items := (grid_items a)(selected a := Some ing)\<rparr>
          in update_variant_ui a)"

text \<open>
  The \<^verbatim>\<open>ok\<close> handler of \<^verbatim>\<open>_open_variants_dialog(ing, options)\<close> for the ingredient of slot
  \<open>pos\<close>; \<open>checked\<close> holds the state of the check boxes, one for each option.
\<close>

definition variants_dialog_ok :: "app \<Rightarrow> nat \<times> nat \<Rightarrow> string list \<Rightarrow> bool list \<Rightarrow> app" where
  "variants_dialog_ok a pos options checked =
     (case grid_items a pos of
        None \<Rightarrow> a
      | Some ing \<Rightarrow>
          let ing = ing\<lparr>allowed_variants := map fst (filter snd (zip options checked))\<rparr>;
              ing = (if wildcard_var a then
                       normalize_wildcard_code
                         (if \<not> endswith (code ing) ''*'' then ing\<lparr>code := code ing @ ''*''\<rparr>
                          else ing)
                     else ing);
              a = a\<lparr>grid_items := (grid_items a)(pos := Some ing)\<rparr>
          in update_variants_summary a pos options)"

text \<open>
  The two user operations on the selected slot that change the wildcard form: setting the
  check box "Allow variants" (which runs \<^verbatim>\<open>_side_apply\<close>), and confirming the variants
  dialog.
\<close>

datatype wildcard_op = Toggle bool | Choose "string list" "bool list"

fun wildcard_step :: "wildcard_op \<Rightarrow> app \<Rightarrow> app" where
  "wildcard_step (Toggle b) a = side_apply (a\<lparr>wildcard_var := b\<rparr>)"
| "wildcard_step (Choose options checked) a = variants_dialog_ok a (selected a) options checked"

definition selected_code :: "app \<Rightarrow> string" where
  "selected_code a = (case grid_items a (selected a) of None \<Rightarrow> [] | Some ing \<Rightarrow> code ing)"

section \<open>Symbols\<close>

text \<open>\<^verbatim>\<open>x.symbol\<close> is truthy: a letter has been assigned.\<close>

definition has_symbol :: "ingredient \<Rightarrow> bool" where
  "has_symbol x = (case symbol x of None \<Rightarrow> False | Some s \<Rightarrow> s \<noteq> [])"

text \<open>\<^verbatim>\<open>ing.symbol or ""\<close>.\<close>

definition symbol_or_empty :: "ingredient \<Rightarrow> string" where
  "symbol_or_empty x = (case symbol x of None \<Rightarrow> [] | Some s \<Rightarrow> s)"

text \<open>The ingredients on the grid, in scan order.\<close>

definition grid_ingredients :: "app \<Rightarrow> ingredient list" where
  "grid_ingredients a =
     concat (map (\<lambda>pos. case grid_items a pos of None \<Rightarrow> [] | Some x \<Rightarrow> [x]) cells)"

text \<open>\<^verbatim>\<open>chr(ord("A") + i)\<close> for \<^verbatim>\<open>i\<close> in \<^verbatim>\<open>range(26)\<close>.\<close>

definition letters :: "string list" where
  "letters = map (\<lambda>i. [char_of (65 + i)]) [0..<26]"

text \<open>
  \<^verbatim>\<open>_symbol_for_code\<close>: the remembered letter of the code unless another code holds it on the
  grid, else the first free letter, else \<^verbatim>\<open>X\<close>. Returns the letter and the state, in which
  \<^verbatim>\<open>code_to_symbol\<close> may have been updated.
\<close>

definition symbol_for_code :: "app \<Rightarrow> string \<Rightarrow> string \<times> app" where
  "symbol_for_code a cd =
     (let used_letters = set (map symbol_or_empty (filter has_symbol (grid_ingredients a)));
          letters_of_code = set (map symbol_or_empty
             (filter (\<lambda>x. has_symbol x \<and> code x = cd) (grid_ingredients a)));
          free = (case find (\<lambda>l. l \<notin> used_letters) letters of
                    Some candidate \<Rightarrow> (candidate, a\<lparr>code_to_symbol := (code_to_symbol a)(cd \<mapsto> candidate)\<rparr>)
                  | None \<Rightarrow> (''X'', a\<lparr>code_to_symbol := (code_to_symbol a)(cd \<mapsto> ''X'')\<rparr>))
      in case code_to_symbol a cd of
           Some letter \<Rightarrow>
             if letter \<in> used_letters \<and> letter \<notin> letters_of_code then free else (letter, a)
         | None \<Rightarrow> free)"

text \<open>\<^verbatim>\<open>str(n)\<close> for an integer.\<close>

function show_nat :: "nat \<Rightarrow> string" where
  "show_nat n = (if n < 10 then [char_of (48 + n)] else show_nat (n div 10) @ [char_of (48 + n mod 10)])"
  by pat_completeness auto
termination
  by (relation "measure id") auto

definition show_int :: "int \<Rightarrow> string" where
  "show_int i = (if i < 0 then ''-'' @ show_nat (nat (- i)) else show_nat (nat i))"

text \<open>
  \<^verbatim>\<open>_update_side_for_selected\<close>: the side panel's variables are reloaded from the selected
  slot, then the variants row is refreshed.
\<close>

definition update_side_for_selected :: "app \<Rightarrow> app" where
  "update_side_for_selected a =
     (case grid_items a (selected a) of
        None \<Rightarrow> a\<lparr>is_tool_var := False, tool_cost_var := ''0'', qty_var := ''1'',
                   wildcard_var := False, symbol_var := [], slot_name_var := []\<rparr>
      | Some ing \<Rightarrow>
          update_variant_ui
            (a\<lparr>is_tool_var := is_tool ing,
               tool_cost_var := show_int (tool_cost ing),
               qty_var := show_int (if quantity ing = 0 then 1 else quantity ing),
               wildcard_var := (code ing \<noteq> [] \<and> endswith (code ing) ''*''),
               symbol_var := symbol_or_empty ing,
               slot_name_var := name ing\<rparr>))"

definition select_cell :: "app \<Rightarrow> nat \<times> nat \<Rightarrow> app" where
  "select_cell a pos = update_side_for_selected (a\<lparr>selected := pos\<rparr>)"

text \<open>\<^verbatim>\<open>_set_cell_item(r, c, code)\<close>.\<close>

definition set_cell_item :: "app \<Rightarrow> nat \<times> nat \<Rightarrow> string \<Rightarrow> app" where
  "set_cell_item a pos cd =
     (let ing = (case grid_items a pos of None \<Rightarrow> new_ingredient | Some x \<Rightarrow> x);
          ing = ing\<lparr>code := cd\<rparr>;
          a = (case grid_items a pos of None \<Rightarrow> a
               | Some _ \<Rightarrow> a\<lparr>grid_items := (grid_items a)(pos := Some ing)\<rparr>);
          (ing, a) = (if symbol ing = None
                      then (case symbol_for_code a cd of (l, a') \<Rightarrow> (ing\<lparr>symbol := Some l\<rparr>, a'))
                      else (ing, a));
          a = a\<lparr>grid_items := (grid_items a)(pos := Some ing)\<rparr>
      in update_side_for_selected a)"

text \<open>\<^verbatim>\<open>_propagate_symbol_for_code\<close>: every slot with this code gets the letter.\<close>

definition propagate_symbol_for_code :: "app \<Rightarrow> string \<Rightarrow> string \<Rightarrow> app" where
  "propagate_symbol_for_code a cd letter =
     fold (\<lambda>pos a. case grid_items a pos of
                       None \<Rightarrow> a
                     | Some x \<Rightarrow> if code x = cd
                                then a\<lparr>grid_items := (grid_items a)(pos := Some (x\<lparr>symbol := Some letter\<rparr>))\<rparr>
                                else a)
          cells a"

text \<open>
  The first alphabetic character of the entry, in upper case; empty when there is none.
\<close>

definition first_letter :: "builtins \<Rightarrow> string \<Rightarrow> string" where
  "first_letter py raw = (case find (isalpha py) raw of None \<Rightarrow> [] | Some ch \<Rightarrow> upper py ch)"

text \<open>
  The duplicate check of \<^verbatim>\<open>_apply_symbol_live\<close>: some other slot holds an ingredient with a
  different code and this letter. (Two slots never share one \<^verbatim>\<open>Ingredient\<close> object, so
  \<^verbatim>\<open>other is ing\<close> holds for the selected slot only.)
\<close>

definition symbol_taken :: "app \<Rightarrow> ingredient \<Rightarrow> string \<Rightarrow> bool" where
  "symbol_taken a ing letter =
     list_ex (\<lambda>pos. case grid_items a pos of
                       None \<Rightarrow> False
                     | Some other \<Rightarrow> pos \<noteq> selected a \<and> code other \<noteq> code ing \<and>
                                    symbol other = Some letter)
             cells"

definition apply_symbol_live :: "builtins \<Rightarrow> app \<Rightarrow> app" where
  "apply_symbol_live py a =
     (case grid_items a (selected a) of
        None \<Rightarrow> a\<lparr>symbol_var := []\<rparr>
      | Some ing \<Rightarrow>
          let first = first_letter py (symbol_var a) in
          if first = [] then a\<lparr>symbol_var := symbol_or_empty ing\<rparr>
          else if symbol_taken a ing first
          then a\<lparr>symbol_var := symbol_or_empty ing,
                 errors := errors a @
                   [(''Duplicate symbol'',
                     ''Symbol '' @ [CHR 0x27] @ first @ [CHR 0x27] @
                     '' is already used by another ingredient.'')]\<rparr>
          else
            let ing = ing\<lparr>symbol := Some first\<rparr>;
                a = a\<lparr>grid_items := (grid_items a)(selected a := Some ing)\<rparr>;
                a = (if code ing \<noteq> []
                     then propagate_symbol_for_code
                            (a\<lparr>code_to_symbol := (code_to_symbol a)(code ing \<mapsto> first)\<rparr>)
                            (code ing) first
                     else a)
            in if symbol_var a \<noteq> first then a\<lparr>symbol_var := first\<rparr> else a)"

section \<open>The exported document\<close>

text \<open>\<^verbatim>\<open>sep.join(xs)\<close>.\<close>

fun py_join :: "string \<Rightarrow> string list \<Rightarrow> string" where
  "py_join sep [] = []"
| "py_join sep [x] = x"
| "py_join sep (x # y # ys) = x @ sep @ py_join sep (y # ys)"

text \<open>
  The symbol of a filled slot, \<^verbatim>\<open>ing.symbol or self._symbol_for_code(ing.code)\<close>, with the
  state after the call.
\<close>

definition symbol_of_slot :: "app \<Rightarrow> ingredient \<Rightarrow> string \<times> app" where
  "symbol_of_slot a ing = (if has_symbol ing then (symbol_or_empty ing, a) else symbol_for_code a (code ing))"

text \<open>One row of \<^verbatim>\<open>_build_ingredient_pattern\<close>: the row's text so far and the state.\<close>

definition pattern_cell :: "nat \<times> nat \<Rightarrow> string \<times> app \<Rightarrow> string \<times> app" where
  "pattern_cell pos acc =
     (case acc of (row, a) \<Rightarrow>
        (case grid_items a pos of
           None \<Rightarrow> (row @ ''_'', a)
         | Some ing \<Rightarrow>
             if code ing = [] then (row @ ''_'', a)
             else (case symbol_of_slot a ing of (s, a') \<Rightarrow> (row @ s, a'))))"

definition pattern_row :: "nat \<Rightarrow> string list \<times> app \<Rightarrow> string list \<times> app" where
  "pattern_row r acc =
     (case acc of (rows, a) \<Rightarrow>
        (case fold pattern_cell (map (\<lambda>c. (r, c)) [0..<GRID_SIZE]) ([], a) of
           (row, a') \<Rightarrow> (rows @ [row], a')))"

definition build_ingredient_pattern :: "app \<Rightarrow> string \<times> app" where
  "build_ingredient_pattern a =
     (case fold pattern_row [0..<GRID_SIZE] ([], a) of (rows, a') \<Rightarrow> (py_join '','' rows, a'))"

text \<open>
  \<^verbatim>\<open>_collect_ingredients_dict\<close>: the dictionary from symbol to ingredient as an association
  list in insertion order; the first ingredient of a symbol is kept.
\<close>

definition collect_cell ::
  "nat \<times> nat \<Rightarrow> (string \<times> ingredient) list \<times> app \<Rightarrow> (string \<times> ingredient) list \<times> app" where
  "collect_cell pos acc =
     (case acc of (ing_map, a) \<Rightarrow>
        (case grid_items a pos of
           None \<Rightarrow> (ing_map, a)
         | Some ing \<Rightarrow>
             if code ing = [] then (ing_map, a)
             else (case symbol_of_slot a ing of
                     (sy, a') \<Rightarrow>
                       if sy \<notin> fst ` set ing_map then (ing_map @ [(sy, ing)], a')
                       else (ing_map, a'))))"

definition collect_ingredients_dict :: "app \<Rightarrow> (string \<times> ingredient) list \<times> app" where
  "collect_ingredients_dict a = fold collect_cell cells ([], a)"

text \<open>The line of one ingredient in \<^verbatim>\<open>build_json5_text\<close>.\<close>

definition ingredient_line :: "string \<Rightarrow> ingredient \<Rightarrow> string" where
  \<open>ingredient_line sy ing =
     (let inner = [''type: "item"'', ''code: "'' @ code ing @ ''"''];
          inner = (if name ing \<noteq> [] then inner @ [''name: "'' @ name ing @ ''"''] else inner);
          inner = (if allowed_variants ing \<noteq> []
                   then inner @ [''allowedVariants: [ '' @
                          py_join '', '' (map (\<lambda>v. ''"'' @ v @ ''"'') (allowed_variants ing)) @ '' ]'']
                   else inner);
          inner = (if is_tool ing
                   then (if tool_cost ing > 0
                         then inner @ [''isTool: true'',
                                ''toolDurabilityCost: '' @ show_int (tool_cost ing)]
                         else inner @ [''isTool: true''])
                   else inner);
          inner = (if quantity ing \<noteq> 0 \<and> quantity ing \<noteq> 1
                   then inner @ [''quantity: '' @ show_int (quantity ing)] else inner)
      in [CHR 0x09, CHR 0x09, CHR 0x09] @ ''"'' @ sy @ ''": { '' @ py_join '', '' inner @ '' }},'')\<close>

text \<open>\<^verbatim>\<open>lines[-1] = lines[-1][:-1]\<close> when the last line ends in a comma.\<close>

definition drop_last_comma :: "string list \<Rightarrow> string list" where
  "drop_last_comma lines =
     (if lines \<noteq> [] \<and> endswith (last lines) '','' then butlast lines @ [butlast (last lines)]
      else lines)"

definition build_json5_text :: "app \<Rightarrow> string \<times> app" where
  \<open>build_json5_text a =
     (case build_ingredient_pattern a of
        (ing_pattern, a) \<Rightarrow>
     (case collect_ingredients_dict a of
        (ing_map, a) \<Rightarrow>
          let t1 = [CHR 0x09]; t2 = [CHR 0x09, CHR 0x09];
              lines = [''['', t1 @ ''{'',
                       t2 @ ''ingredientPattern: "'' @ ing_pattern @ ''",'',
                       t2 @ ''shapeless: '' @ (if shapeless_var a then ''true'' else ''false'') @ '','',
                       t2 @ ''ingredients: {''];
              lines = lines @ map (\<lambda>sy. ingredient_line sy (the (map_of ing_map sy)))
                                  (sort (map fst ing_map));
              lines = drop_last_comma lines;
              lines = lines @ [t2 @ ''},'',
                               t2 @ ''width: '' @ show_nat GRID_SIZE @ '','',
                               t2 @ ''height: '' @ show_nat GRID_SIZE @ '',''];
              out_code = (if py_strip (output_code_var a) \<noteq> [] then py_strip (output_code_var a)
                          else ''game:__set_output__'');
              out_inner = [''type: "item"'', ''code: "'' @ out_code @ ''"''];
              q = (case py_int (output_qty_var a) of None \<Rightarrow> 1 | Some n \<Rightarrow> max 1 n);
              out_inner = (if q \<noteq> 1 then out_inner @ [''quantity: '' @ show_int q] else out_inner);
              lines = lines @ [t2 @ ''output: { '' @ py_join '', '' out_inner @ '' }'',
                               t1 @ ''},'', '']'']
          in (py_join [CHR 0x0A] lines, a)))\<close>

text \<open>
  The state \<^verbatim>\<open>__init__\<close> leaves, given the variant corpus that discovery produced: an empty
  grid, the first slot selected, the defaults of the Tk variables.
\<close>

definition init_app :: "(string \<rightharpoonup> string set) \<Rightarrow> app" where
  "init_app corpus =
     \<lparr>grid_items = (\<lambda>_. None), selected = (0, 0), is_tool_var = False, tool_cost_var = ''0'',
      qty_var = ''1'', wildcard_var = False, symbol_var = [], slot_name_var = [],
      shapeless_var = False,
      output_code_var = [], output_qty_var = ''1'', code_to_symbol = Map.empty,
      variant_index = corpus, errors = []\<rparr>"

text \<open>
  The two string methods on code points below 256, to run the model on concrete inputs.
  \<^verbatim>\<open>isalpha\<close> holds of the ASCII letters and the letters of Latin-1. \<^verbatim>\<open>upper\<close> maps the small
  letters to the capital ones and the sharp s (0xDF) to \<^verbatim>\<open>SS\<close>; the upper case of the micro
  sign (0xB5) and of y with diaeresis (0xFF) lies beyond code point 255, and the character
  itself stands for it here.
\<close>

definition latin1_isalpha :: "char \<Rightarrow> bool" where
  "latin1_isalpha c = (let n = (of_char c :: nat) in
     (65 \<le> n \<and> n \<le> 90) \<or> (97 \<le> n \<and> n \<le> 122) \<or> n = 170 \<or> n = 181 \<or> n = 186 \<or>
     (192 \<le> n \<and> n \<le> 214) \<or> (216 \<le> n \<and> n \<le> 246) \<or> (248 \<le> n \<and> n \<le> 255))"

definition latin1_upper :: "char \<Rightarrow> string" where
  "latin1_upper c = (let n = (of_char c :: nat) in
     if (97 \<le> n \<and> n \<le> 122) \<or> (224 \<le> n \<and> n \<le> 246) \<or> (248 \<le> n \<and> n \<le> 254)
     then [char_of (n - 32)]
     else if n = 223 then ''SS'' else [c])"

definition latin1_builtins :: builtins where
  "latin1_builtins = \<lparr>isalpha = latin1_isalpha, upper = latin1_upper\<rparr>"



section \<open>The file system and path discovery\<close>

text \<open>
  What the program takes from its platform is a parameter of the model, in two records.
  The first holds the functions that expand a root: \<^verbatim>\<open>os.path.expandvars\<close>,
  \<^verbatim>\<open>os.path.expanduser\<close>, \<^verbatim>\<open>os.path.abspath\<close>, \<^verbatim>\<open>os.path.isabs\<close>, \<^verbatim>\<open>os.path.dirname\<close>, and the
  built-in \<^verbatim>\<open>repr\<close> used by \<^verbatim>\<open>!r\<close> in the log lines.
\<close>

record os_path =
  expandvars :: "string \<Rightarrow> string"
  expanduser :: "string \<Rightarrow> string"
  abspath :: "string \<Rightarrow> string"
  isabs :: "string \<Rightarrow> bool"
  dirname :: "string \<Rightarrow> string"
  repr :: "string \<Rightarrow> string"

text \<open>
  The second holds the file system and the environment: \<^verbatim>\<open>path_join\<close> takes the arguments
  of \<^verbatim>\<open>os.path.join\<close> as a list; \<^verbatim>\<open>isdir\<close> is \<^verbatim>\<open>os.path.isdir\<close>; \<^verbatim>\<open>environ\<close> is
  \<^verbatim>\<open>os.environ\<close>; \<^verbatim>\<open>walk\<close> gives the triples (dirpath, dirnames, filenames) of \<^verbatim>\<open>os.walk\<close>
  in order; \<^verbatim>\<open>read_text\<close> is \<^verbatim>\<open>open(path, "r", encoding="utf-8")\<close> followed by \<^verbatim>\<open>read()\<close>,
  and is \<^term>\<open>None\<close> when either raises.
\<close>

record os =
  path_join :: "string list \<Rightarrow> string"
  isdir :: "string \<Rightarrow> bool"
  environ :: "string \<rightharpoonup> string"
  walk :: "string \<Rightarrow> (string \<times> string list \<times> string list) list"
  read_text :: "string \<Rightarrow> string option"

text \<open>\<^verbatim>\<open>os.path.abspath(os.path.expanduser(os.path.expandvars(root)))\<close>.\<close>

definition expand :: "os_path \<Rightarrow> string \<Rightarrow> string" where
  "expand osp root = abspath osp (expanduser osp (expandvars osp root))"

definition candidate_list_from_root :: "os_path \<Rightarrow> os \<Rightarrow> string \<Rightarrow> string list" where
  "candidate_list_from_root osp os root =
     (let root = expand osp root in
      [path_join os [root, ''assets'', ''survival''],
       path_join os [root, ''Vintagestory'', ''assets'', ''survival''],
       path_join os [dirname osp root, ''Vintagestory'', ''assets'', ''survival''],
       root])"

definition validate_survival_dir :: "os \<Rightarrow> string \<Rightarrow> bool" where
  "validate_survival_dir os path = (isdir os path \<and> isdir os (path_join os [path, ''itemtypes'']))"

text \<open>
  The loop over the candidates in \<^verbatim>\<open>resolve_survival_dir\<close>: each candidate is tested and
  logged; the first valid one is returned at once.
\<close>

definition try_line :: "string \<Rightarrow> bool \<Rightarrow> string" where
  "try_line cand ok = ''  Try: '' @ cand @ ''  -> '' @ (if ok then ''OK'' else ''nope'')"

fun try_candidates :: "os \<Rightarrow> string list \<Rightarrow> string list \<Rightarrow> string option \<times> string list" where
  "try_candidates os [] logs = (None, logs)"
| "try_candidates os (cand # cands) logs =
     (let ok = validate_survival_dir os cand;
          logs = logs @ [try_line cand ok]
      in if ok then (Some cand, logs @ [''[FOUND] Using: '' @ cand])
         else try_candidates os cands logs)"

text \<open>
  \<^verbatim>\<open>resolve_survival_dir\<close>. The result is the
  directory, if one was found, and the log. (The copy of each line printed on the standard
  output is left out. The arrow and the ellipsis of the last line are beyond code point
  255 and stand here as their UTF-8 bytes.)
\<close>

text \<open>A value that is \<^verbatim>\<open>None\<close> or the empty string is falsy.\<close>

definition truthy :: "string option \<Rightarrow> string option" where
  "truthy v = (case v of None \<Rightarrow> None | Some s \<Rightarrow> if s = [] then None else Some s)"

definition FAILED_LINE :: string where
  "FAILED_LINE = ''[FAILED] Could not locate '' @ [CHR 0x27] @ ''assets/survival'' @ [CHR 0x27] @
     ''. Use Discovery '' @ [CHR 0xE2, CHR 0x86, CHR 0x92] @ '' Direct Search'' @
     [CHR 0xE2, CHR 0x80, CHR 0xA6] @ '' or set your env var.''"

definition resolve_env ::
  "os_path \<Rightarrow> os \<Rightarrow> string option \<Rightarrow> string list \<Rightarrow> string option \<times> string list" where
  "resolve_env osp os env_key logs =
     (case truthy env_key of
        None \<Rightarrow> (None, logs @ [FAILED_LINE])
      | Some k \<Rightarrow>
          (case truthy (environ os k) of
             None \<Rightarrow> (None, logs @ [''Env '' @ k @ '': not set''] @ [FAILED_LINE])
           | Some val \<Rightarrow>
               (case try_candidates os (candidate_list_from_root osp os val)
                       (logs @ [''Env '' @ k @ '': '' @ repr osp val]) of
                  (Some cand, logs) \<Rightarrow> (Some cand, logs)
                | (None, logs) \<Rightarrow> (None, logs @ [FAILED_LINE]))))"

definition resolve_survival_dir ::
  "os_path \<Rightarrow> os \<Rightarrow> string option \<Rightarrow> string option \<Rightarrow> string option \<times> string list" where
  "resolve_survival_dir osp os env_key direct_root =
     (let logs = [''---- Starting discovery ----''] in
      case truthy direct_root of
        None \<Rightarrow> resolve_env osp os env_key logs
      | Some d \<Rightarrow>
          let expanded = expand osp d;
              logs = (if \<not> isabs osp d
                      then logs @ [''Direct Search path is not absolute: '' @ repr osp d] else logs);
              logs = logs @ [''Direct Search path provided: '' @ repr osp d @
                             '' (expanded: '' @ repr osp expanded @ '')'']
          in case try_candidates os (candidate_list_from_root osp os expanded) logs of
               (Some cand, logs) \<Rightarrow> (Some cand, logs)
             | (None, logs) \<Rightarrow> resolve_env osp os env_key logs)"

text \<open>The test on the file name in both tree walks.\<close>

definition is_definition_file :: "string \<Rightarrow> bool" where
  "is_definition_file fn = (endswith fn ''.json'' \<or> endswith fn ''.json5'')"

definition discover_codes_in_file :: "os \<Rightarrow> string \<Rightarrow> string set" where
  "discover_codes_in_file os path =
     (case read_text os path of None \<Rightarrow> {} | Some txt \<Rightarrow> discover_codes_in_text txt)"

text \<open>
  \<^verbatim>\<open>discover_game_codes\<close>: the sorted codes of all definition files under the two
  subdirectories, and the directory used; the empty list and \<^verbatim>\<open>None\<close> when no directory was
  found.
\<close>

definition discover_game_codes ::
  "os_path \<Rightarrow> os \<Rightarrow> string option \<Rightarrow> string option \<Rightarrow> string list \<times> string option" where
  "discover_game_codes osp os env_key direct_root =
     (case fst (resolve_survival_dir osp os env_key direct_root) of
        None \<Rightarrow> ([], None)
      | Some survival \<Rightarrow>
          if survival = [] then ([], None)
          else
            let codes =
              fold (\<lambda>kind codes.
                      let root = path_join os [survival, kind] in
                      if \<not> isdir os root then codes
                      else fold (\<lambda>(dirpath, _, filenames) codes.
                                   fold (\<lambda>fn codes.
                                           if \<not> is_definition_file fn then codes
                                           else codes \<union> discover_codes_in_file os
                                                           (path_join os [dirpath, fn]))
                                        filenames codes)
                                (walk os root) codes)
                   [''itemtypes'', ''blocktypes''] {}
            in (sorted_list_of_set codes, Some survival))"

section \<open>The variant corpus\<close>

text \<open>
  The two patterns of \<^verbatim>\<open>_collect_corpus_variants\<close>, both compiled with \<^verbatim>\<open>re.I\<close>.
\<close>

definition REX_DOM :: rx where
  "REX_DOM = seq [WordB, Grp 1 (Many Ident 1), Lit '':'', Grp 2 (Many Ident 1), Lit ''-'',
                  Grp 3 (Many Ident 1), WordB]"

definition REX_NODOM :: rx where
  "REX_NODOM = seq [WordB, Grp 1 (Many Ident 1), Lit ''-'', Grp 2 (Many Ident 1), WordB]"

text \<open>\<^verbatim>\<open>s.lower()\<close> on code points below 256.\<close>

definition lower_char :: "char \<Rightarrow> char" where
  "lower_char c = (let n = (of_char c :: nat) in
     if (65 \<le> n \<and> n \<le> 90) \<or> (192 \<le> n \<and> n \<le> 214) \<or> (216 \<le> n \<and> n \<le> 222)
     then char_of (n + 32) else c)"

definition py_lower :: "string \<Rightarrow> string" where
  "py_lower s = map lower_char s"

text \<open>
  The exceptions that the loop bodies would raise on a group that took no part in the
  match: \<^verbatim>\<open>None.lower()\<close> and \<^verbatim>\<open>"*" in None\<close>.
\<close>

datatype py_error = AttributeError | TypeError

type_synonym corpus = "string \<rightharpoonup> string set"

text \<open>The local function \<^verbatim>\<open>add\<close>; an argument that is \<^verbatim>\<open>None\<close> or empty is falsy.\<close>

definition add :: "string \<Rightarrow> string option \<Rightarrow> string option \<Rightarrow> corpus \<Rightarrow> corpus" where
  "add dm base token variants =
     (if falsy base \<or> falsy token then variants
      else let key = dm @ '':'' @ the base @ ''-''
           in variants(key \<mapsto> insert (the token)
                (case variants key of None \<Rightarrow> {} | Some S \<Rightarrow> S)))"

text \<open>A loop whose body may raise: the first error ends it.\<close>

fun fold_err :: "('a \<Rightarrow> 'b \<Rightarrow> py_error + 'b) \<Rightarrow> 'a list \<Rightarrow> 'b \<Rightarrow> py_error + 'b" where
  "fold_err f [] acc = Inr acc"
| "fold_err f (x # xs) acc = (case f x acc of Inl e \<Rightarrow> Inl e | Inr acc' \<Rightarrow> fold_err f xs acc')"

definition add_dom :: "mstate \<Rightarrow> corpus \<Rightarrow> py_error + corpus" where
  "add_dom m variants =
     (case group m 1 of
        None \<Rightarrow> Inl AttributeError
      | Some d \<Rightarrow> Inr (add (py_lower d) (group m 2) (group m 3) variants))"

definition add_nodom :: "mstate \<Rightarrow> corpus \<Rightarrow> py_error + corpus" where
  "add_nodom m variants =
     (case (group m 1, group m 2) of
        (Some base, Some token) \<Rightarrow>
          if CHR ''*'' \<in> set base \<or> CHR ''*'' \<in> set token then Inr variants
          else Inr (add ''game'' (Some base) (Some token) variants)
      | _ \<Rightarrow> Inl TypeError)"

text \<open>The two scans of one file's text.\<close>

definition scan_text :: "string \<Rightarrow> corpus \<Rightarrow> py_error + corpus" where
  "scan_text txt variants =
     (case fold_err add_dom (finditer REX_DOM None txt) variants of
        Inl e \<Rightarrow> Inl e
      | Inr variants \<Rightarrow> fold_err add_nodom (finditer REX_NODOM None txt) variants)"

definition scan_file :: "os \<Rightarrow> string \<Rightarrow> string \<Rightarrow> corpus \<Rightarrow> py_error + corpus" where
  "scan_file os dirpath fn variants =
     (if \<not> is_definition_file fn then Inr variants
      else case read_text os (path_join os [dirpath, fn]) of
             None \<Rightarrow> Inr variants
           | Some txt \<Rightarrow> scan_text txt variants)"

definition scan_kind :: "os \<Rightarrow> string \<Rightarrow> string \<Rightarrow> corpus \<Rightarrow> py_error + corpus" where
  "scan_kind os survival_path kind variants =
     (let root = path_join os [survival_path, kind] in
      if \<not> isdir os root then Inr variants
      else fold_err (\<lambda>(dirpath, _, filenames). fold_err (scan_file os dirpath) filenames)
             (walk os root) variants)"

definition collect_corpus_variants :: "os \<Rightarrow> string \<Rightarrow> py_error + corpus" where
  "collect_corpus_variants os survival_path =
     fold_err (scan_kind os survival_path) [''itemtypes'', ''blocktypes''] Map.empty"



section \<open>Predicates used in the proofs\<close>

text \<open>
  A placeholder \<^verbatim>\<open>{...}\<close> starts at the head of the text: an opening brace, at least one
  character other than a closing brace, and a closing brace somewhere after.
\<close>

definition placeholder_at :: "string \<Rightarrow> bool" where
  "placeholder_at s = (case s of [] \<Rightarrow> False | c # cs \<Rightarrow>
     c = CHR ''{'' \<and> takeWhile (\<lambda>x. x \<noteq> CHR ''}'') cs \<noteq> [] \<and> dropWhile (\<lambda>x. x \<noteq> CHR ''}'') cs \<noteq> [])"


fun has_placeholder :: "string \<Rightarrow> bool" where
  "has_placeholder [] = False"
| "has_placeholder (c # cs) = (placeholder_at (c # cs) \<or> has_placeholder cs)"


text \<open>No code of the set contains two consecutive stars.\<close>

definition star_ok :: "string set \<Rightarrow> bool" where
  "star_ok codes = (\<forall>c\<in>codes. \<not> py_in ''**'' c)"


text \<open>The character before the position reached after reading \<open>s\<close>.\<close>

definition last_opt :: "char option \<Rightarrow> string \<Rightarrow> char option" where
  "last_opt p s = (if s = [] then p else Some (last s))"


text \<open>
  What the normaliser keeps of a code: the code without its final star and without the
  dashes before it. A code is sound when it has no double dash and no double star and
  what the normaliser keeps of it does not end in a star.
\<close>

definition core :: "string \<Rightarrow> string" where
  "core c = rstrip_dash (if endswith c ''*'' then butlast c else c)"

definition sound :: "string \<Rightarrow> bool" where
  "sound c = (\<not> py_in ''--'' c \<and> \<not> py_in ''**'' c \<and> \<not> endswith (core c) ''*'')"


definition slot_sound :: "app \<Rightarrow> bool" where
  "slot_sound a = (\<exists>ing. grid_items a (selected a) = Some ing \<and> sound (code ing))"


text \<open>
  The positions at which the scan of \<^verbatim>\<open>re.finditer\<close> tries the expression, each with the
  character before it and the text from it on: every position of the text except those
  inside a match.
\<close>

function attempts :: "rx \<Rightarrow> char option \<Rightarrow> string \<Rightarrow> (char option \<times> string) list" where
  "attempts r p s =
     (p, s) #
     (case matches r (p, s, []) of
        [] \<Rightarrow> (case s of [] \<Rightarrow> [] | c # cs \<Rightarrow> attempts r (Some c) cs)
      | m # _ \<Rightarrow>
          (if length (fst (snd m)) < length s then attempts r (fst m) (fst (snd m))
           else (case s of [] \<Rightarrow> [] | c # cs \<Rightarrow> attempts r (Some c) cs)))"
  by pat_completeness auto
termination
  by (relation "measure (\<lambda>(r, p, s). length s)") auto


section \<open>The matcher on the two patterns of the normaliser\<close>

lemma py_in_sublist: "py_in t s = sublist t s"
  by (induction s) (auto simp: sublist_Cons_right)

lemma run_length: "length (run c (p, s, g)) = Suc (length (takeWhile (cls_mem c) s))"
  by (induction s arbitrary: p) auto

lemma run_nonempty: "run c (p, s, g) \<noteq> []"
  by (cases s) auto

lemma run_last: "fst (snd (last (run c (p, s, g)))) = dropWhile (cls_mem c) s"
  by (induction s arbitrary: p) (auto simp: run_nonempty)

lemma many_then_char:
  "\<not> cls_mem c d \<Longrightarrow>
   concat (map (eat [d]) (rev (drop n (run c (p, s, g))))) =
     (if n \<le> length (takeWhile (cls_mem c) s)
      then (case dropWhile (cls_mem c) s of [] \<Rightarrow> [] | x # xs \<Rightarrow> if x = d then [(Some d, xs, g)] else [])
      else [])"
proof (induction s arbitrary: p n)
  case Nil
  then show ?case by (cases n) auto
next
  case (Cons x xs)
  show ?case
  proof (cases "cls_mem c x")
    case False
    then show ?thesis by (cases n) auto
  next
    case True
    with Cons.prems have ne: "d \<noteq> x" by auto
    show ?thesis
    proof (cases n)
      case 0
      with True ne Cons.IH [OF Cons.prems, of 0 "Some x"] show ?thesis by simp
    next
      case (Suc k)
      with True Cons.IH [OF Cons.prems, of k "Some x"] show ?thesis by simp
    qed
  qed
qed

lemma concat_eat_nil [simp]: "concat (map (eat []) xs) = xs"
  by (induction xs) auto

lemma matches_Lit [simp]: "matches (Lit t) = eat t"
  by (rule ext) simp

lemma cat_eps [simp]: "matches (Cat r (Lit [])) = matches r"
  by (rule ext) simp

lemma ne_brace: "cls_mem (NotIn ''}'') = (\<lambda>x. x \<noteq> CHR ''}'')"
  by (rule ext) simp

lemma brace_matches:
  "matches BRACE_RE (p, s, g) =
     (if placeholder_at s then [(Some CHR ''}'', tl (dropWhile (\<lambda>x. x \<noteq> CHR ''}'') (tl s)), g)] else [])"
proof (cases s)
  case Nil
  then show ?thesis by (simp add: BRACE_RE_def seq_def placeholder_at_def)
next
  case (Cons c cs)
  show ?thesis
  proof (cases "c = CHR ''{''")
    case False
    then show ?thesis by (simp add: BRACE_RE_def seq_def placeholder_at_def Cons)
  next
    case True
    have "matches BRACE_RE (p, s, g) =
        concat (map (eat ''}'') (rev (drop 1 (run (NotIn ''}'') (Some c, cs, g)))))"
      by (simp add: BRACE_RE_def seq_def Cons True)
    also have "\<dots> = (if 1 \<le> length (takeWhile (\<lambda>x. x \<noteq> CHR ''}'') cs)
      then (case dropWhile (\<lambda>x. x \<noteq> CHR ''}'') cs of [] \<Rightarrow> []
            | x # xs \<Rightarrow> if x = CHR ''}'' then [(Some CHR ''}'', xs, g)] else [])
      else [])"
      using many_then_char [of "NotIn ''}''" "CHR ''}''" 1 "Some c" cs g]
      by (simp add: ne_brace)
    also have "\<dots> = (if placeholder_at s then [(Some CHR ''}'', tl (dropWhile (\<lambda>x. x \<noteq> CHR ''}'') (tl s)), g)] else [])"
    proof (cases "dropWhile (\<lambda>x. x \<noteq> CHR ''}'') cs")
      case Nil
      then show ?thesis by (simp add: placeholder_at_def Cons del: dropWhile_eq_Nil_conv)
    next
      case (Cons x xs)
      then have "x = CHR ''}''" using hd_dropWhile [of "\<lambda>x. x \<noteq> CHR ''}''" cs] by auto
      moreover from this Cons have "CHR ''}'' \<in> set cs"
        by (metis list.set_intros(1) set_dropWhileD)
      ultimately show ?thesis
        using Cons by (auto simp: placeholder_at_def \<open>s = c # cs\<close> True Suc_le_eq)
    qed
    finally show ?thesis .
  qed
qed

lemma stars_matches:
  "matches STARS_RE (p, s, g) \<noteq> [] \<longleftrightarrow> prefix ''**'' s"
  "matches STARS_RE (p, s, g) = m # ms \<Longrightarrow> fst (snd m) = dropWhile (\<lambda>x. x = CHR ''*'') s"
proof -
  have eq: "cls_mem (Only CHR ''*'') = (\<lambda>x. x = CHR ''*'')" by (rule ext) simp
  have len: "length (run (Only CHR ''*'') (p, s, g)) = Suc (length (takeWhile (\<lambda>x. x = CHR ''*'') s))"
    by (simp add: run_length eq)
  show "matches STARS_RE (p, s, g) \<noteq> [] \<longleftrightarrow> prefix ''**'' s"
  proof (cases s)
    case Nil then show ?thesis by (simp add: STARS_RE_def)
  next
    case (Cons a as)
    then show ?thesis using len by (cases as) (auto simp: STARS_RE_def)
  qed
  assume m: "matches STARS_RE (p, s, g) = m # ms"
  then have ne: "drop 2 (run (Only CHR ''*'') (p, s, g)) \<noteq> []"
    by (auto simp: STARS_RE_def)
  from m have "m = last (drop 2 (run (Only CHR ''*'') (p, s, g)))"
    using ne by (simp add: STARS_RE_def rev_eq_Cons_iff)
  also have "\<dots> = last (run (Only CHR ''*'') (p, s, g))"
    using ne by (simp add: last_drop)
  finally show "fst (snd m) = dropWhile (\<lambda>x. x = CHR ''*'') s"
    using run_last [of "Only CHR ''*''" p s g] by (simp add: eq)
qed

lemmas re_sub_unfold = re_sub.simps
declare re_sub.simps [simp del]

lemma bsub_Nil [simp]: "re_sub BRACE_RE repl p [] = []"
  by (subst re_sub_unfold) (simp add: brace_matches placeholder_at_def)

lemma bsub_Cons:
  "re_sub BRACE_RE repl p (c # cs) =
     (if placeholder_at (c # cs)
      then repl @ re_sub BRACE_RE repl (Some CHR ''}'') (tl (dropWhile (\<lambda>x. x \<noteq> CHR ''}'') cs))
      else c # re_sub BRACE_RE repl (Some c) cs)"
proof -
  have "length (tl (dropWhile (\<lambda>x. x \<noteq> CHR ''}'') cs)) < Suc (length cs)"
    using length_dropWhile_le [of "\<lambda>x. x \<noteq> CHR ''}''" cs] by simp
  then show ?thesis
    by (subst re_sub_unfold) (simp add: brace_matches)
qed

lemma ssub_Nil [simp]: "re_sub STARS_RE repl p [] = []"
  using stars_matches(1) [of p "[]" "[]"] by (subst re_sub_unfold) simp

lemma ssub_Cons_nomatch:
  assumes "\<not> prefix ''**'' (c # cs)"
  shows "re_sub STARS_RE repl p (c # cs) = c # re_sub STARS_RE repl (Some c) cs"
proof -
  have "matches STARS_RE (p, c # cs, []) = []"
    using assms stars_matches(1) [of p "c # cs" "[]"] by blast
  then show ?thesis by (subst re_sub_unfold) simp
qed

lemma ssub_Cons_match:
  assumes "prefix ''**'' (c # cs)"
  shows "\<exists>p'. re_sub STARS_RE repl p (c # cs) = repl @ re_sub STARS_RE repl p' (dropWhile (\<lambda>x. x = CHR ''*'') cs)"
proof -
  from assms stars_matches(1) [of p "c # cs" "[]"]
  obtain m ms where m: "matches STARS_RE (p, c # cs, []) = m # ms"
    by (cases "matches STARS_RE (p, c # cs, [])") auto
  from assms have c: "c = CHR ''*''" by simp
  have r: "fst (snd m) = dropWhile (\<lambda>x. x = CHR ''*'') cs"
    using stars_matches(2) [OF m] c by simp
  have "length (dropWhile (\<lambda>x. x = CHR ''*'') cs) < Suc (length cs)"
    using length_dropWhile_le [of "\<lambda>x. x = CHR ''*''" cs] by simp
  then have "re_sub STARS_RE repl p (c # cs) = repl @ re_sub STARS_RE repl (fst m) (dropWhile (\<lambda>x. x = CHR ''*'') cs)"
    by (subst re_sub_unfold) (simp add: m r)
  then show ?thesis by blast
qed

lemma placeholder_at_iff:
  "placeholder_at (c # cs) \<longleftrightarrow> c = CHR ''{'' \<and> cs \<noteq> [] \<and> hd cs \<noteq> CHR ''}'' \<and> CHR ''}'' \<in> set cs"
  by (cases cs) (auto simp: placeholder_at_def)

lemma bsub_set: "set (re_sub BRACE_RE repl p s) \<subseteq> set s \<union> set repl"
proof (induction s arbitrary: p rule: length_induct)
  case (1 s)
  show ?case
  proof (cases s)
    case Nil then show ?thesis by simp
  next
    case (Cons c cs)
    let ?t = "tl (dropWhile (\<lambda>x. x \<noteq> CHR ''}'') cs)"
    have len: "length ?t < length s"
      using length_dropWhile_le [of "\<lambda>x. x \<noteq> CHR ''}''" cs] Cons by simp
    have sub: "set ?t \<subseteq> set cs"
      by (metis (no_types, lifting) list.sel(2) list.set_sel(2) set_dropWhileD subsetI)
    show ?thesis
      using 1 [rule_format, OF len, of "Some CHR ''}''"] 1 [rule_format, of cs "Some c"] sub Cons
      by (simp add: bsub_Cons) blast
  qed
qed

lemma ssub_set: "set (re_sub STARS_RE repl p s) \<subseteq> set s \<union> set repl"
proof (induction s arbitrary: p rule: length_induct)
  case (1 s)
  show ?case
  proof (cases s)
    case Nil then show ?thesis by simp
  next
    case (Cons c cs)
    let ?t = "dropWhile (\<lambda>x. x = CHR ''*'') cs"
    have len: "length ?t < length s"
      using length_dropWhile_le [of "\<lambda>x. x = CHR ''*''" cs] Cons by simp
    have sub: "set ?t \<subseteq> set cs"
      by (meson set_dropWhileD subsetI)
    show ?thesis
    proof (cases "prefix ''**'' (c # cs)")
      case True
      from ssub_Cons_match [OF True, of repl p] obtain p' where
        "re_sub STARS_RE repl p (c # cs) = repl @ re_sub STARS_RE repl p' ?t" by blast
      then show ?thesis using 1 [rule_format, OF len, of p'] sub Cons by simp blast
    next
      case False
      then show ?thesis using 1 [rule_format, of cs "Some c"] Cons
        by (simp add: ssub_Cons_nomatch del: prefix_Cons) blast
    qed
  qed
qed

lemma bsub_id: "\<not> has_placeholder s \<Longrightarrow> re_sub BRACE_RE repl p s = s"
  by (induction s arbitrary: p) (auto simp: bsub_Cons)

lemma ssub_id: "\<not> py_in ''**'' s \<Longrightarrow> re_sub STARS_RE repl p s = s"
proof (induction s arbitrary: p)
  case Nil then show ?case by simp
next
  case (Cons c cs)
  then have "\<not> prefix ''**'' (c # cs)" and "\<not> py_in ''**'' cs" by auto
  with Cons.IH show ?case by (simp add: ssub_Cons_nomatch del: prefix_Cons)
qed

text \<open>Neither substitution turns a brace that starts no placeholder into one that does.\<close>

lemma bsub_hd: "re_sub BRACE_RE ''*'' p s \<noteq> [] \<Longrightarrow> hd (re_sub BRACE_RE ''*'' p s) \<noteq> CHR ''}''
   \<Longrightarrow> s \<noteq> [] \<and> hd s \<noteq> CHR ''}''"
  by (cases s) (auto simp: bsub_Cons placeholder_at_def split: if_splits)

lemma ssub_hd: "re_sub STARS_RE ''*'' p s \<noteq> [] \<Longrightarrow> hd (re_sub STARS_RE ''*'' p s) \<noteq> CHR ''}''
   \<Longrightarrow> s \<noteq> [] \<and> hd s \<noteq> CHR ''}''"
proof (cases s)
  case Nil
  assume "re_sub STARS_RE ''*'' p s \<noteq> []" with Nil show ?thesis by simp
next
  case (Cons c cs)
  assume "hd (re_sub STARS_RE ''*'' p s) \<noteq> CHR ''}''"
  then show ?thesis using Cons
    by (cases "c = CHR ''}''") (auto simp: ssub_Cons_nomatch)
qed

lemma bsub_keeps_plain:
  "\<not> placeholder_at (c # cs) \<Longrightarrow> \<not> placeholder_at (c # re_sub BRACE_RE ''*'' p cs)"
  using bsub_hd [of p cs] bsub_set [of "''*''" p cs]
  by (auto simp: placeholder_at_iff)

lemma ssub_keeps_plain:
  "\<not> placeholder_at (c # cs) \<Longrightarrow> \<not> placeholder_at (c # re_sub STARS_RE ''*'' p cs)"
  using ssub_hd [of p cs] ssub_set [of "''*''" p cs]
  by (auto simp: placeholder_at_iff)

lemma has_placeholder_suffix: "has_placeholder b \<Longrightarrow> has_placeholder (a @ b)"
  by (induction a) auto

lemma has_placeholder_prefix: "has_placeholder a \<Longrightarrow> has_placeholder (a @ b)"
proof (induction a)
  case Nil then show ?case by simp
next
  case (Cons c a)
  show ?case
  proof (cases "placeholder_at (c # a)")
    case True
    then have "placeholder_at (c # a @ b)" by (cases a) (auto simp: placeholder_at_iff)
    then show ?thesis by simp
  next
    case False
    with Cons show ?thesis by simp
  qed
qed

lemma has_placeholder_dropWhile: "\<not> has_placeholder s \<Longrightarrow> \<not> has_placeholder (dropWhile P s)"
  using has_placeholder_suffix [of "dropWhile P s" "takeWhile P s"] by auto

lemma has_placeholder_tl: "\<not> has_placeholder s \<Longrightarrow> \<not> has_placeholder (tl s)"
  by (cases s) auto

lemma bsub_free: "\<not> has_placeholder (re_sub BRACE_RE ''*'' p s)"
proof (induction s arbitrary: p rule: length_induct)
  case (1 s)
  show ?case
  proof (cases s)
    case Nil then show ?thesis by simp
  next
    case (Cons c cs)
    let ?t = "tl (dropWhile (\<lambda>x. x \<noteq> CHR ''}'') cs)"
    have len: "length ?t < length s"
      using length_dropWhile_le [of "\<lambda>x. x \<noteq> CHR ''}''" cs] Cons by simp
    show ?thesis
    proof (cases "placeholder_at (c # cs)")
      case True
      then show ?thesis
        using 1 [rule_format, OF len, of "Some CHR ''}''"] Cons
        by (simp add: bsub_Cons placeholder_at_def)
    next
      case False
      then show ?thesis
        using 1 [rule_format, of cs "Some c"] Cons bsub_keeps_plain [OF False, of "Some c"]
        by (simp add: bsub_Cons)
    qed
  qed
qed

lemma ssub_free: "\<not> has_placeholder s \<Longrightarrow> \<not> has_placeholder (re_sub STARS_RE ''*'' p s)"
proof (induction s arbitrary: p rule: measure_induct_rule [where f = length])
  case (less s)
  note prems = less.prems
  show ?case
  proof (cases s)
    case Nil then show ?thesis by simp
  next
    case (Cons c cs)
    let ?t = "dropWhile (\<lambda>x. x = CHR ''*'') cs"
    have len: "length ?t < length s"
      using length_dropWhile_le [of "\<lambda>x. x = CHR ''*''" cs] Cons by simp
    from prems Cons have np: "\<not> placeholder_at (c # cs)" and ncs: "\<not> has_placeholder cs"
      by auto
    show ?thesis
    proof (cases "prefix ''**'' (c # cs)")
      case True
      from ssub_Cons_match [OF True, of "''*''" p] obtain p' where
        eq: "re_sub STARS_RE ''*'' p (c # cs) = ''*'' @ re_sub STARS_RE ''*'' p' ?t" by blast
      have "\<not> has_placeholder ?t" using ncs by (rule has_placeholder_dropWhile)
      with less.IH [OF len, of p'] have "\<not> has_placeholder (re_sub STARS_RE ''*'' p' ?t)"
        by simp
      then show ?thesis using eq Cons by (simp add: placeholder_at_def)
    next
      case False
      then show ?thesis
        using less.IH [of cs "Some c"] Cons ncs ssub_keeps_plain [OF np, of "Some c"]
        by (simp add: ssub_Cons_nomatch del: prefix_Cons)
    qed
  qed
qed

lemma ssub_hd_star:
  "\<not> prefix ''*'' s \<Longrightarrow> \<not> prefix ''*'' (re_sub STARS_RE ''*'' p s)"
  by (cases s) (auto simp: ssub_Cons_nomatch)

lemma dropWhile_no_star: "\<not> prefix ''*'' (dropWhile (\<lambda>x. x = CHR ''*'') cs)"
  by (induction cs) auto

lemma prefix_two_stars: "prefix ''**'' (c # cs) \<longleftrightarrow> c = CHR ''*'' \<and> prefix ''*'' cs"
  by auto

lemma ssub_no_stars: "\<not> py_in ''**'' (re_sub STARS_RE ''*'' p s)"
proof (induction s arbitrary: p rule: measure_induct_rule [where f = length])
  case (less s)
  show ?case
  proof (cases s)
    case Nil then show ?thesis by simp
  next
    case (Cons c cs)
    let ?t = "dropWhile (\<lambda>x. x = CHR ''*'') cs"
    have len: "length ?t < length s"
      using length_dropWhile_le [of "\<lambda>x. x = CHR ''*''" cs] Cons by simp
    show ?thesis
    proof (cases "prefix ''**'' (c # cs)")
      case True
      from ssub_Cons_match [OF True, of "''*''" p] obtain p' where
        eq: "re_sub STARS_RE ''*'' p (c # cs) = CHR ''*'' # re_sub STARS_RE ''*'' p' ?t" by auto
      have "\<not> prefix ''*'' ?t" by (rule dropWhile_no_star)
      then have a: "\<not> prefix ''*'' (re_sub STARS_RE ''*'' p' ?t)" by (rule ssub_hd_star)
      have b: "\<not> py_in ''**'' (re_sub STARS_RE ''*'' p' ?t)" by (rule less.IH [OF len])
      show ?thesis unfolding Cons eq py_in.simps prefix_two_stars using a b by blast
    next
      case False
      have eq: "re_sub STARS_RE ''*'' p (c # cs) = c # re_sub STARS_RE ''*'' (Some c) cs"
        by (rule ssub_Cons_nomatch [OF False])
      from False have "c = CHR ''*'' \<Longrightarrow> \<not> prefix ''*'' cs" unfolding prefix_two_stars by blast
      then have a: "c = CHR ''*'' \<Longrightarrow> \<not> prefix ''*'' (re_sub STARS_RE ''*'' (Some c) cs)"
        by (rule ssub_hd_star)
      have b: "\<not> py_in ''**'' (re_sub STARS_RE ''*'' (Some c) cs)"
        by (rule less.IH) (simp add: Cons)
      show ?thesis unfolding Cons eq py_in.simps prefix_two_stars using a b by blast
    qed
  qed
qed

lemma strip_prefix_suffix: "\<exists>a b. s = a @ py_strip s @ b"
proof -
  let ?w = "dropWhile is_space s"
  have "?w = rev (dropWhile is_space (rev ?w)) @ rev (takeWhile is_space (rev ?w))"
    by (metis rev_append rev_rev_ident takeWhile_dropWhile_id)
  then have "s = takeWhile is_space s @ py_strip s @ rev (takeWhile is_space (rev ?w))"
    by (simp add: py_strip_def)
  then show ?thesis by blast
qed

lemma strip_free: "\<not> has_placeholder s \<Longrightarrow> \<not> has_placeholder (py_strip s)"
proof
  assume n: "\<not> has_placeholder s" and h: "has_placeholder (py_strip s)"
  obtain a b where s: "s = a @ py_strip s @ b" using strip_prefix_suffix by blast
  from h have "has_placeholder (py_strip s @ b)" by (rule has_placeholder_prefix)
  then have "has_placeholder (a @ py_strip s @ b)" by (rule has_placeholder_suffix)
  with s n show False by simp
qed

lemma strip_no_stars: "\<not> py_in ''**'' s \<Longrightarrow> \<not> py_in ''**'' (py_strip s)"
proof
  assume n: "\<not> py_in ''**'' s" and h: "py_in ''**'' (py_strip s)"
  obtain a b where s: "s = a @ py_strip s @ b" using strip_prefix_suffix by blast
  then have "sublist (py_strip s) s" by (metis sublist_appendI)
  with h have "sublist ''**'' s" unfolding py_in_sublist by (rule sublist_order.order_trans)
  with n show False by (simp add: py_in_sublist)
qed

lemma dropWhile_fix: "s = [] \<or> \<not> P (hd s) \<Longrightarrow> dropWhile P s = s"
  by (cases s) auto

lemma strip_idem: "py_strip (py_strip s) = py_strip s"
proof -
  let ?w = "dropWhile is_space s"
  let ?v = "py_strip s"
  have w: "?w = [] \<or> \<not> is_space (hd ?w)" using hd_dropWhile [of is_space s] by auto
  have "rev ?v = dropWhile is_space (rev ?w)" by (simp add: py_strip_def)
  then have r: "dropWhile is_space (rev ?v) = rev ?v" by (simp add: dropWhile_idem)
  have "?w = ?v @ rev (takeWhile is_space (rev ?w))"
    unfolding py_strip_def by (metis rev_append rev_rev_ident takeWhile_dropWhile_id)
  then have "?v \<noteq> [] \<Longrightarrow> ?w \<noteq> [] \<and> hd ?v = hd ?w" by (metis hd_append2 append_is_Nil_conv)
  with w have "?v = [] \<or> \<not> is_space (hd ?v)" by metis
  then have d: "dropWhile is_space ?v = ?v" by (rule dropWhile_fix)
  have "py_strip ?v = rev (dropWhile is_space (rev (dropWhile is_space ?v)))"
    by (rule py_strip_def)
  also have "\<dots> = rev (dropWhile is_space (rev ?v))" by (simp only: d)
  also have "\<dots> = rev (rev ?v)" by (simp only: r)
  finally show ?thesis by simp
qed

lemma norm_pattern_no_stars: "\<not> py_in ''**'' (norm_pattern s)"
  by (simp add: norm_pattern_def Let_def strip_no_stars ssub_no_stars)

section \<open>Claims about normalisation and extraction\<close>

text \<open>
  C3. Pattern normalisation is idempotent: normalising an already normalised pattern
  changes nothing, for every input string. (\<^verbatim>\<open>_norm_pattern\<close> replaces each brace-delimited
  segment by a star, collapses each run of two or more stars into one, and strips white
  space.)
\<close>

theorem norm_pattern_idempotent: "norm_pattern (norm_pattern s) = norm_pattern s"
proof -
  let ?v = "norm_pattern s"
  have "\<not> has_placeholder ?v"
    by (simp add: norm_pattern_def Let_def strip_free ssub_free bsub_free)
  then have 1: "re_sub BRACE_RE ''*'' None ?v = ?v" by (rule bsub_id)
  have 2: "re_sub STARS_RE ''*'' None ?v = ?v"
    using norm_pattern_no_stars by (rule ssub_id)
  have 3: "py_strip ?v = ?v" by (simp add: norm_pattern_def Let_def strip_idem)
  have "norm_pattern ?v = py_strip (re_sub STARS_RE ''*'' None (re_sub BRACE_RE ''*'' None ?v))"
    by (simp add: norm_pattern_def Let_def)
  then show ?thesis by (simp only: 1 2 3)
qed

lemmas finditer_unfold = finditer.simps
declare finditer.simps [simp del]

lemma py_in_game [simp]: "py_in ''**'' (''game:'' @ x) = py_in ''**'' x"
  by simp

lemma no_stars_sibling: "\<not> py_in ''**'' b \<Longrightarrow> \<not> endswith b ''*'' \<Longrightarrow> \<not> py_in ''**'' (b @ ''-*'')"
proof (induction b)
  case Nil then show ?case by simp
next
  case (Cons c cs)
  then show ?case by (cases cs) (auto simp: endswith_def suffix_Cons)
qed

lemma no_stars_base: "\<not> py_in ''**'' (with_domain (norm_pattern v))"
  using norm_pattern_no_stars [of v] by (simp add: with_domain_def)

lemma fold_inv: "(\<And>x acc. P acc \<Longrightarrow> P (f x acc)) \<Longrightarrow> P init \<Longrightarrow> P (fold f xs init)"
  by (induction xs arbitrary: init) auto

lemma add_code_ok: "star_ok codes \<Longrightarrow> star_ok (add_code m codes)"
  using no_stars_base no_stars_sibling
  by (auto simp: add_code_def star_ok_def Let_def)

lemma add_plain_ok: "star_ok codes \<Longrightarrow> star_ok (add_plain m codes)"
  using no_stars_base by (auto simp: add_plain_def star_ok_def Let_def)

lemma add_list_ok: "star_ok codes \<Longrightarrow> star_ok (add_list m codes)"
  unfolding add_list_def Let_def by (rule fold_inv [where P = star_ok]) (simp_all add: add_plain_ok)

text \<open>
  C1, as the code has it. For every input text, no pattern in the set returned by
  \<^verbatim>\<open>_discover_codes_in_text\<close> contains two consecutive stars. (Nothing is promised about
  double dashes: the extractor keeps the dashes of the quoted value.)
\<close>

theorem extracted_codes_no_double_star:
  "c \<in> discover_codes_in_text text \<Longrightarrow> \<not> py_in ''**'' c"
proof -
  have "star_ok (discover_codes_in_text text)"
    unfolding discover_codes_in_text_def Let_def
    by (intro fold_inv [where P = star_ok] add_code_ok add_plain_ok add_list_ok)
      (simp_all add: star_ok_def)
  then show "c \<in> discover_codes_in_text text \<Longrightarrow> \<not> py_in ''**'' c"
    by (simp add: star_ok_def)
qed

text \<open>The theorem at the text \<^verbatim>\<open>code: "foo"\<close> and its pattern \<^verbatim>\<open>game:foo-*\<close>.\<close>

theorem extracted_codes_no_double_star_witness:
  \<open>''game:foo-*'' \<in> discover_codes_in_text ''code: "foo"'' \<and> \<not> py_in ''**'' ''game:foo-*''\<close>
proof -
  have m: \<open>''game:foo-*'' \<in> discover_codes_in_text ''code: "foo"''\<close> by code_simp
  from m extracted_codes_no_double_star [OF m] show ?thesis by blast
qed

text \<open>
  C1 as stated fails: a double dash in the quoted value is kept
  (\<^verbatim>\<open>code: "a--b"\<close> gives \<^verbatim>\<open>game:a--b\<close>), and the sibling heuristic makes one from a
  value that ends in a dash (\<^verbatim>\<open>code: "foo-"\<close> gives \<^verbatim>\<open>game:foo--*\<close>).
\<close>

theorem extracted_codes_double_dash_counterexample:
  \<open>''game:a--b'' \<in> discover_codes_in_text ''code: "a--b"'' \<and> py_in ''--'' ''game:a--b'' \<and>
   ''game:foo--*'' \<in> discover_codes_in_text ''code: "foo-"'' \<and> py_in ''--'' ''game:foo--*''\<close>
  by code_simp


section \<open>The first extraction rule\<close>

lemma add_code_union: "add_code m codes = codes \<union> add_code m {}"
  by (auto simp: add_code_def Let_def)

lemma add_code_mono: "codes \<subseteq> add_code m codes"
  by (auto simp: add_code_def Let_def)

lemma add_plain_mono: "codes \<subseteq> add_plain m codes"
  by (auto simp: add_plain_def Let_def)

lemma fold_mono:
  "(\<And>x acc. acc \<subseteq> f x acc) \<Longrightarrow> init \<subseteq> fold f xs (init :: 'a set)"
proof (induction xs arbitrary: init)
  case Nil then show ?case by simp
next
  case (Cons x xs)
  have "init \<subseteq> f x init" by (rule Cons.prems)
  also have "\<dots> \<subseteq> fold f xs (f x init)" by (rule Cons.IH) (rule Cons.prems)
  finally show ?case by simp
qed

lemma add_list_mono: "codes \<subseteq> add_list m codes"
  unfolding add_list_def Let_def by (rule fold_mono) (rule add_plain_mono)

lemma fold_add_code_mem:
  "m \<in> set ms \<Longrightarrow> add_code m {} \<subseteq> fold add_code ms init"
proof (induction ms arbitrary: init)
  case Nil then show ?case by simp
next
  case (Cons x xs)
  show ?case
  proof (cases "m = x")
    case True
    have "add_code m {} \<subseteq> add_code x init" using True add_code_union [of x init] by blast
    also have "\<dots> \<subseteq> fold add_code xs (add_code x init)"
      by (rule fold_mono) (rule add_code_mono)
    finally show ?thesis by simp
  next
    case False
    with Cons.prems have "m \<in> set xs" by simp
    then show ?thesis using Cons.IH by simp
  qed
qed

lemma rule1_subset:
  "m \<in> set (finditer CODE_RE None text) \<Longrightarrow> add_code m {} \<subseteq> discover_codes_in_text text"
proof -
  assume m: "m \<in> set (finditer CODE_RE None text)"
  let ?c1 = "fold add_code (finditer CODE_RE None text) {}"
  let ?c2 = "fold add_plain (finditer PATH_RE None text) ?c1"
  let ?c3 = "fold add_list (finditer VARIANTS_RE None text) ?c2"
  have "add_code m {} \<subseteq> ?c1" using m by (rule fold_add_code_mem)
  also have "?c1 \<subseteq> ?c2" by (rule fold_mono) (rule add_plain_mono)
  also have "?c2 \<subseteq> ?c3" by (rule fold_mono) (rule add_list_mono)
  also have "?c3 \<subseteq> fold add_list (finditer GROUPBY_RE None text) ?c3"
    by (rule fold_mono) (rule add_list_mono)
  finally show ?thesis by (simp add: discover_codes_in_text_def Let_def)
qed


lemma many_then:
  assumes k: "\<And>p' x xs. cls_mem c x \<Longrightarrow> k (p', x # xs, g) = []"
  shows "concat (map k (rev (drop n (run c (p, s, g))))) =
     (if n \<le> length (takeWhile (cls_mem c) s)
      then k (last_opt p (takeWhile (cls_mem c) s), dropWhile (cls_mem c) s, g) else [])"
proof (induction s arbitrary: p n)
  case Nil
  then show ?case by (cases n) (auto simp: last_opt_def)
next
  case (Cons x xs)
  show ?case
  proof (cases "cls_mem c x")
    case False
    then show ?thesis by (cases n) (auto simp: last_opt_def)
  next
    case True
    have l: "last_opt (Some x) (takeWhile (cls_mem c) xs) = last_opt p (x # takeWhile (cls_mem c) xs)"
      by (simp add: last_opt_def)
    show ?thesis
    proof (cases n)
      case 0
      with True k [OF True] Cons.IH [of 0 "Some x"] l show ?thesis by simp
    next
      case (Suc j)
      with True Cons.IH [of j "Some x"] l show ?thesis by simp
    qed
  qed
qed

lemma eat_capture_miss: "d \<noteq> x \<Longrightarrow> eat [d] (capture n s0 (p, x # xs, g)) = []"
  by (simp add: capture_def)

lemma many_capture_then_char:
  assumes d: "\<not> cls_mem c d"
  shows "concat (map (eat [d]) (map (capture n (a @ t)) (rev (drop k (run c (p, t, g)))))) =
     (if k \<le> length (takeWhile (cls_mem c) t)
      then (case dropWhile (cls_mem c) t of [] \<Rightarrow> []
            | x # xs \<Rightarrow> if x = d then [(Some d, xs, (n, a @ takeWhile (cls_mem c) t) # g)] else [])
      else [])"
proof (induction t arbitrary: p k a)
  case Nil
  then show ?case by (cases k) (auto simp: capture_def)
next
  case (Cons x xs)
  show ?case
  proof (cases "cls_mem c x")
    case False
    then show ?thesis by (cases k) (auto simp: capture_def)
  next
    case True
    with d have ne: "d \<noteq> x" by auto
    have a: "a @ x # xs = (a @ [x]) @ xs" by simp
    have tw: "a @ takeWhile (cls_mem c) (x # xs) = (a @ [x]) @ takeWhile (cls_mem c) xs"
      using True by simp
    have dw: "dropWhile (cls_mem c) (x # xs) = dropWhile (cls_mem c) xs"
      using True by simp
    have ln: "length (takeWhile (cls_mem c) (x # xs)) = Suc (length (takeWhile (cls_mem c) xs))"
      using True by simp
    have r: "run c (p, x # xs, g) = (p, x # xs, g) # run c (Some x, xs, g)"
      using True by simp
    show ?thesis
    proof (cases k)
      case 0
      have "concat (map (eat [d]) (map (capture n (a @ x # xs)) (rev (drop k (run c (p, x # xs, g)))))) =
          concat (map (eat [d]) (map (capture n ((a @ [x]) @ xs)) (rev (drop 0 (run c (Some x, xs, g))))))
          @ eat [d] (capture n (a @ x # xs) (p, x # xs, g))"
        unfolding r 0 by simp
      also have "\<dots> = concat (map (eat [d]) (map (capture n ((a @ [x]) @ xs)) (rev (drop 0 (run c (Some x, xs, g))))))"
        by (simp only: eat_capture_miss [OF ne] append_Nil2)
      finally show ?thesis
        unfolding Cons.IH [of "a @ [x]" 0 "Some x"] tw dw ln 0 by simp
    next
      case (Suc j)
      have "concat (map (eat [d]) (map (capture n (a @ x # xs)) (rev (drop k (run c (p, x # xs, g)))))) =
          concat (map (eat [d]) (map (capture n ((a @ [x]) @ xs)) (rev (drop j (run c (Some x, xs, g))))))"
        unfolding r Suc by simp
      then show ?thesis
        unfolding Cons.IH [of "a @ [x]" j "Some x"] tw dw ln Suc by simp
    qed
  qed
qed

lemma takeWhile_until:
  "q \<notin> set v \<Longrightarrow> takeWhile (\<lambda>x. x \<noteq> q) (v @ q # post) = v"
  "q \<notin> set v \<Longrightarrow> dropWhile (\<lambda>x. x \<noteq> q) (v @ q # post) = q # post"
  by (induction v) auto

lemma quoted_dq:
  assumes "v \<noteq> []" "CHR 0x22 \<notin> set v"
  shows "matches STR_RE (p, CHR 0x22 # v @ CHR 0x22 # post, g) = [(Some CHR 0x22, post, (1, v) # g)]"
proof -
  have c: "cls_mem (NotIn [CHR 0x22]) = (\<lambda>x. x \<noteq> CHR 0x22)" by (rule ext) simp
  have l: "Suc 0 \<le> length v" using assms(1) by (cases v) auto
  show ?thesis
    using many_capture_then_char [of "NotIn [CHR 0x22]" "CHR 0x22" 1 "[]" "v @ CHR 0x22 # post" 1
        "Some CHR 0x22" g] l
    by (simp add: STR_RE_def seq_def c takeWhile_until [OF assms(2)])
qed

lemma quoted_sq:
  assumes "v \<noteq> []" "CHR 0x27 \<notin> set v"
  shows "matches STR_RE (p, CHR 0x27 # v @ CHR 0x27 # post, g) = [(Some CHR 0x27, post, (2, v) # g)]"
proof -
  have c: "cls_mem (NotIn [CHR 0x27]) = (\<lambda>x. x \<noteq> CHR 0x27)" by (rule ext) simp
  have l: "Suc 0 \<le> length v" using assms(1) by (cases v) auto
  show ?thesis
    using many_capture_then_char [of "NotIn [CHR 0x27]" "CHR 0x27" 2 "[]" "v @ CHR 0x27 # post" 1
        "Some CHR 0x27" g] l
    by (simp add: STR_RE_def seq_def c takeWhile_until [OF assms(2)])
qed

lemma quoted_none: "x \<noteq> CHR 0x22 \<Longrightarrow> x \<noteq> CHR 0x27 \<Longrightarrow> matches STR_RE (p, x # xs, g) = []"
  by (simp add: STR_RE_def seq_def)

lemma space_not_quote: "is_space x \<Longrightarrow> x \<noteq> CHR 0x22 \<and> x \<noteq> CHR 0x27 \<and> x \<noteq> CHR '':''"
  by (auto simp: is_space_def)

lemma spaces_then:
  assumes "\<forall>c\<in>set ws. is_space c" "\<not> is_space x"
  shows "takeWhile (cls_mem WhiteSp) (ws @ x # rest) = ws"
    and "dropWhile (cls_mem WhiteSp) (ws @ x # rest) = x # rest"
  using assms by (induction ws) auto

lemma skip_spaces:
  assumes k: "\<And>p' x xs. is_space x \<Longrightarrow> k (p', x # xs, g) = []"
    and ws: "\<forall>c\<in>set ws. is_space c" and x: "\<not> is_space x"
  shows "concat (map k (rev (run WhiteSp (p, ws @ x # rest, g)))) =
           k (last_opt p ws, x # rest, g)"
  using many_then [of WhiteSp k g 0 p "ws @ x # rest"] k
  by (simp add: spaces_then [OF ws x])

lemma not_space_chars [simp]:
  "\<not> is_space CHR '':''" "\<not> is_space CHR 0x22" "\<not> is_space CHR 0x27"
  by (simp_all add: is_space_def)

lemma quoted_any:
  assumes q: "q = CHR 0x22 \<or> q = CHR 0x27" and v: "v \<noteq> []" "q \<notin> set v"
  shows "matches STR_RE (p, q # v @ q # post, g) =
           [(Some q, post, ((if q = CHR 0x22 then 1 else 2), v) # g)]"
  using q quoted_dq [OF v(1), of p post g] quoted_sq [OF v(1), of p post g] v(2) by auto

lemma code_match:
  assumes p: "\<not> word_opt p"
    and ws1: "\<forall>c\<in>set ws1. is_space c" and ws2: "\<forall>c\<in>set ws2. is_space c"
    and q: "q = CHR 0x22 \<or> q = CHR 0x27" and v: "v \<noteq> []" "q \<notin> set v"
  shows "matches CODE_RE (p, ''code'' @ ws1 @ '':'' @ ws2 @ q # v @ q # post, []) =
           [(Some q, post, [((if q = CHR 0x22 then 1 else 2), v)])]"
proof -
  let ?S = "Cat STR_RE (Lit [])"
  let ?R2 = "Cat (Many WhiteSp 0) ?S"
  let ?R1 = "Cat (Lit '':'') ?R2"
  have nq: "\<not> is_space q" using q by auto
  have k2: "\<And>p' x xs. is_space x \<Longrightarrow> matches ?S (p', x # xs, []) = []"
    using space_not_quote quoted_none by simp
  have k1: "\<And>p' x xs. is_space x \<Longrightarrow> matches ?R1 (p', x # xs, []) = []"
    using space_not_quote by auto
  have r2: "matches ?R2 (p', ws2 @ q # v @ q # post, []) =
      [(Some q, post, [((if q = CHR 0x22 then 1 else 2), v)])]" for p'
    using skip_spaces [of "matches ?S" "[]" ws2 q p' "v @ q # post", OF k2 ws2 nq]
    by (simp add: quoted_any [OF q v])
  have r1: "matches ?R1 (p', '':'' @ ws2 @ q # v @ q # post, []) =
      [(Some q, post, [((if q = CHR 0x22 then 1 else 2), v)])]" for p'
    using r2 [of "Some CHR '':''"] by simp
  have "matches (Cat (Many WhiteSp 0) ?R1) (p', ws1 @ '':'' @ ws2 @ q # v @ q # post, []) =
      [(Some q, post, [((if q = CHR 0x22 then 1 else 2), v)])]" for p'
    using skip_spaces [of "matches ?R1" "[]" ws1 "CHR '':''" p' "ws2 @ q # v @ q # post", OF k1 ws1]
      r1 by simp
  then show ?thesis
    using p by (simp add: CODE_RE_def seq_def word_opt_def next_char_def is_word_def)
qed

lemma add_code_some:
  assumes "py_or (group m 1) (group m 2) = Some v" "v \<noteq> []"
  shows "with_domain (norm_pattern v) \<in> add_code m {}"
    and "\<not> endswith (with_domain (norm_pattern v)) ''*'' \<and>
         \<not> py_in ''-*'' (with_domain (norm_pattern v)) \<Longrightarrow>
         with_domain (norm_pattern v) @ ''-*'' \<in> add_code m {}"
  using assms by (simp_all add: add_code_def Let_def falsy_def)


lemmas attempts_unfold = attempts.simps
declare attempts.simps [simp del]

lemma attempts_finditer:
  "(p', u) \<in> set (attempts r p t) \<Longrightarrow> matches r (p', u, []) = m # ms \<Longrightarrow>
   m \<in> set (finditer r p t)"
proof (induction r p t rule: attempts.induct)
  case (1 r p s)
  from "1.prems"(1) have "(p', u) \<in> set ((p, s) #
     (case matches r (p, s, []) of
        [] \<Rightarrow> (case s of [] \<Rightarrow> [] | c # cs \<Rightarrow> attempts r (Some c) cs)
      | m # _ \<Rightarrow>
          (if length (fst (snd m)) < length s then attempts r (fst m) (fst (snd m))
           else (case s of [] \<Rightarrow> [] | c # cs \<Rightarrow> attempts r (Some c) cs))))"
    by (subst (asm) attempts_unfold)
  then consider (here) "(p', u) = (p, s)"
    | (later) "(p', u) \<in> set (case matches r (p, s, []) of
        [] \<Rightarrow> (case s of [] \<Rightarrow> [] | c # cs \<Rightarrow> attempts r (Some c) cs)
      | m # _ \<Rightarrow>
          (if length (fst (snd m)) < length s then attempts r (fst m) (fst (snd m))
           else (case s of [] \<Rightarrow> [] | c # cs \<Rightarrow> attempts r (Some c) cs)))"
    by auto
  then show ?case
  proof cases
    case here
    with "1.prems"(2) show ?thesis by (subst finditer_unfold) simp
  next
    case later
    show ?thesis
    proof (cases "matches r (p, s, [])")
      case Nil
      show ?thesis
      proof (cases s)
        case Nil
        with later \<open>matches r (p, s, []) = []\<close> show ?thesis by simp
      next
        case (Cons c cs)
        with later \<open>matches r (p, s, []) = []\<close> have "(p', u) \<in> set (attempts r (Some c) cs)"
          by simp
        then have "m \<in> set (finditer r (Some c) cs)"
          using "1.IH"(1) [OF \<open>matches r (p, s, []) = []\<close> Cons] "1.prems"(2) by blast
        then show ?thesis
          using \<open>matches r (p, s, []) = []\<close> Cons by (subst finditer_unfold) simp
      qed
    next
      case (Cons m0 rest)
      show ?thesis
      proof (cases "length (fst (snd m0)) < length s")
        case True
        with later Cons have "(p', u) \<in> set (attempts r (fst m0) (fst (snd m0)))" by simp
        then have "m \<in> set (finditer r (fst m0) (fst (snd m0)))"
          using "1.IH"(2) [OF Cons True] "1.prems"(2) by blast
        then show ?thesis using Cons True by (subst finditer_unfold) simp
      next
        case False
        show ?thesis
        proof (cases s)
          case Nil
          with later Cons False show ?thesis by simp
        next
          case c: (Cons c cs)
          with later Cons False have "(p', u) \<in> set (attempts r (Some c) cs)" by simp
          then have "m \<in> set (finditer r (Some c) cs)"
            using "1.IH"(3) [OF Cons False c] "1.prems"(2) by blast
          then show ?thesis using Cons False c by (subst finditer_unfold) simp
        qed
      qed
    qed
  qed
qed


text \<open>
  C2, as the code has it. For every match that the scan of the first rule finds in the
  text, with a non-empty quoted value \<open>v\<close>, the extractor's set contains the normalised,
  domain-qualified value, and also that value with \<^verbatim>\<open>-*\<close> appended whenever it neither ends in
  a star nor contains \<^verbatim>\<open>-*\<close>. In terms of the text: this holds for every occurrence of the
  keyword \<^verbatim>\<open>code\<close> that starts at a word boundary, is tried by the scan (it does not lie
  inside an earlier match of the rule) and is followed by optional white space, a colon,
  optional white space and a non-empty value in double or single quotes.
\<close>

theorem code_rule_adds_base_and_sibling:
  "(m \<in> set (finditer CODE_RE None text) \<and> py_or (group m 1) (group m 2) = Some v \<and> v \<noteq> [] \<longrightarrow>
      with_domain (norm_pattern v) \<in> discover_codes_in_text text \<and>
      (\<not> endswith (with_domain (norm_pattern v)) ''*'' \<and>
       \<not> py_in ''-*'' (with_domain (norm_pattern v)) \<longrightarrow>
       with_domain (norm_pattern v) @ ''-*'' \<in> discover_codes_in_text text)) \<and>
   ((pre = [] \<or> \<not> is_word (last pre)) \<and>
    (last_opt None pre, ''code'' @ wa @ '':'' @ wb @ [q] @ w @ [q] @ post)
      \<in> set (attempts CODE_RE None (pre @ ''code'' @ wa @ '':'' @ wb @ [q] @ w @ [q] @ post)) \<and>
    (\<forall>c\<in>set wa \<union> set wb. is_space c) \<and>
    (q = CHR 0x22 \<or> q = CHR 0x27) \<and> w \<noteq> [] \<and> q \<notin> set w \<longrightarrow>
      with_domain (norm_pattern w)
        \<in> discover_codes_in_text (pre @ ''code'' @ wa @ '':'' @ wb @ [q] @ w @ [q] @ post) \<and>
      (\<not> endswith (with_domain (norm_pattern w)) ''*'' \<and>
       \<not> py_in ''-*'' (with_domain (norm_pattern w)) \<longrightarrow>
       with_domain (norm_pattern w) @ ''-*''
        \<in> discover_codes_in_text (pre @ ''code'' @ wa @ '':'' @ wb @ [q] @ w @ [q] @ post)))"
proof -
  have A: "with_domain (norm_pattern v') \<in> discover_codes_in_text t \<and>
      (\<not> endswith (with_domain (norm_pattern v')) ''*'' \<and>
       \<not> py_in ''-*'' (with_domain (norm_pattern v')) \<longrightarrow>
       with_domain (norm_pattern v') @ ''-*'' \<in> discover_codes_in_text t)"
    if m: "m' \<in> set (finditer CODE_RE None t)"
      and val: "py_or (group m' 1) (group m' 2) = Some v'" and ne: "v' \<noteq> []"
    for m' t v'
  proof -
    have sub: "add_code m' {} \<subseteq> discover_codes_in_text t" using m by (rule rule1_subset)
    have b: "with_domain (norm_pattern v') \<in> discover_codes_in_text t"
      using sub add_code_some(1) [OF val ne] by (rule subsetD)
    have s: "with_domain (norm_pattern v') @ ''-*'' \<in> discover_codes_in_text t"
      if "\<not> endswith (with_domain (norm_pattern v')) ''*'' \<and>
          \<not> py_in ''-*'' (with_domain (norm_pattern v'))"
      using sub add_code_some(2) [OF val ne that] by (rule subsetD)
    show ?thesis using b s by (intro conjI impI)
  qed
  have B: "with_domain (norm_pattern w)
        \<in> discover_codes_in_text (pre @ ''code'' @ wa @ '':'' @ wb @ [q] @ w @ [q] @ post) \<and>
      (\<not> endswith (with_domain (norm_pattern w)) ''*'' \<and>
       \<not> py_in ''-*'' (with_domain (norm_pattern w)) \<longrightarrow>
       with_domain (norm_pattern w) @ ''-*''
        \<in> discover_codes_in_text (pre @ ''code'' @ wa @ '':'' @ wb @ [q] @ w @ [q] @ post))"
    if boundary: "pre = [] \<or> \<not> is_word (last pre)"
      and reach: "(last_opt None pre, ''code'' @ wa @ '':'' @ wb @ [q] @ w @ [q] @ post)
        \<in> set (attempts CODE_RE None (pre @ ''code'' @ wa @ '':'' @ wb @ [q] @ w @ [q] @ post))"
      and ws: "\<forall>c\<in>set wa \<union> set wb. is_space c"
      and q: "q = CHR 0x22 \<or> q = CHR 0x27" and w: "w \<noteq> []" "q \<notin> set w"
  proof -
    let ?s = "''code'' @ wa @ '':'' @ wb @ q # w @ q # post"
    let ?m = "(Some q, post, [((if q = CHR 0x22 then 1 else 2) :: nat, w)])"
    have t: "''code'' @ wa @ '':'' @ wb @ [q] @ w @ [q] @ post = ?s" by simp
    have p: "\<not> word_opt (last_opt None pre)"
      using boundary by (auto simp: word_opt_def last_opt_def)
    have sa: "\<forall>c\<in>set wa. is_space c" and sb: "\<forall>c\<in>set wb. is_space c"
      using ws by auto
    have cm: "matches CODE_RE (last_opt None pre, ?s, []) = [?m]"
      by (rule code_match [OF p sa sb q w])
    have "?m \<in> set (finditer CODE_RE None (pre @ ?s))"
      using reach [unfolded t] cm by (rule attempts_finditer)
    moreover have "py_or (group ?m 1) (group ?m 2) = Some w"
      using w(1) by (simp add: group_def py_or_def)
    ultimately show ?thesis unfolding t using w(1) by (rule A)
  qed
  show ?thesis using A B by blast
qed

text \<open>
  The theorem at the second keyword of the text \<^verbatim>\<open>code: "a", code: "b"\<close>: both \<^verbatim>\<open>game:b\<close> and
  \<^verbatim>\<open>game:b-*\<close> are found.
\<close>

theorem code_rule_adds_base_and_sibling_witness:
  \<open>''game:b'' \<in> discover_codes_in_text ''code: "a", code: "b"'' \<and>
   ''game:b-*'' \<in> discover_codes_in_text ''code: "a", code: "b"''\<close>
proof -
  have n: "norm_pattern ''b'' = ''b''" by code_simp
  have e: "\<not> endswith ''game:b'' ''*''" by code_simp
  have b: \<open>\<not> is_word (last ''code: "a", '')\<close> by code_simp
  have l: \<open>last_opt None ''code: "a", '' = Some CHR '' ''\<close> by code_simp
  have r: \<open>(Some CHR '' '', ''code: "b"'') \<in> set (attempts CODE_RE None ''code: "a", code: "b"'')\<close>
    by code_simp
  have s: "\<forall>c\<in>set [] \<union> set '' ''. is_space c" by (simp add: is_space_def)
  show ?thesis
    using code_rule_adds_base_and_sibling [where pre = \<open>''code: "a", ''\<close> and wa = "[]"
        and wb = "'' ''" and q = "CHR 0x22" and w = "''b''" and post = "[]"] b r s e
    by (simp add: n l with_domain_def)
qed

text \<open>
  C2 as stated fails. \<^verbatim>\<open>barcode: "foo"\<close> contains the substring \<^verbatim>\<open>code: "foo"\<close>, but the keyword
  does not start at a word boundary and nothing is extracted. And in
  \<^verbatim>\<open>code: 'x code: "foo"'\<close> the substring lies inside the quoted value of an earlier match,
  which is what the scan reports.
\<close>

theorem code_keyword_inside_word_counterexample:
  \<open>''game:foo'' \<notin> discover_codes_in_text ''barcode: "foo"'' \<and>
   ''game:foo'' \<notin> discover_codes_in_text (''code: '' @ [CHR 0x27] @ ''x code: "foo"'' @ [CHR 0x27])\<close>
  by code_simp


section \<open>The wildcard normaliser\<close>

lemma suffix_rev_hd: "suffix [x] (rev ys) \<Longrightarrow> ys \<noteq> [] \<and> hd ys = x"
  by (cases ys) (auto simp: suffix_def)

lemma rstrip_dash_no_trailing: "\<not> endswith (rstrip_dash s) ''-''"
proof
  let ?ys = "dropWhile (\<lambda>c. c = CHR ''-'') (rev s)"
  assume "endswith (rstrip_dash s) ''-''"
  then have "suffix ''-'' (rev ?ys)" by (simp only: endswith_def rstrip_dash_def)
  then have "?ys \<noteq> [] \<and> hd ?ys = CHR ''-''" by (rule suffix_rev_hd)
  then show False using hd_dropWhile [of "\<lambda>c. c = CHR ''-''" "rev s"] by blast
qed

lemma rstrip_dash_decomp: "\<exists>k. s = rstrip_dash s @ replicate k (CHR ''-'')"
proof -
  let ?P = "\<lambda>c. c = CHR ''-''"
  let ?tw = "takeWhile ?P (rev s)"
  have "rev (rev s) = rev (?tw @ dropWhile ?P (rev s))"
    by (simp only: takeWhile_dropWhile_id)
  then have s: "s = rstrip_dash s @ rev ?tw"
    by (simp only: rev_rev_ident rev_append rstrip_dash_def)
  have "\<forall>y\<in>set (rev ?tw). y = CHR ''-''" by (auto dest: set_takeWhileD)
  then have "replicate (length (rev ?tw)) (CHR ''-'') = rev ?tw"
    by (rule replicate_length_same)
  with s have "s = rstrip_dash s @ replicate (length (rev ?tw)) (CHR ''-'')" by simp
  then show ?thesis ..
qed

lemma endswith_star_butlast: "endswith s ''*'' \<Longrightarrow> s = butlast s @ ''*''"
  by (auto simp: endswith_def suffix_def)

lemma endswith_append [simp]: "endswith (b @ t) t"
  by (simp add: endswith_def suffix_def)

lemma endswith_dash_star: "endswith (b @ ''*'') ''-*'' \<longleftrightarrow> endswith b ''-''"
  by (auto simp: endswith_def suffix_def)

lemma normalize_code:
  assumes "endswith (code ing) ''*''"
  shows "code (normalize_wildcard_code ing) =
           rstrip_dash (butlast (code ing)) @ (if allowed_variants ing \<noteq> [] then ''-*'' else ''*'')"
proof -
  from assms have "code ing \<noteq> []" by (auto simp: endswith_def)
  with assms show ?thesis by (simp add: normalize_wildcard_code_def Let_def)
qed

text \<open>
  C5. For an ingredient whose code ends in a star, the normalised code is the code without
  its final star and without the dashes before it, followed by \<^verbatim>\<open>-*\<close> when variants are
  allowed and by a bare star otherwise. So with no variants it ends in a star that no dash
  precedes, and with variants it ends in \<^verbatim>\<open>-*\<close>.
\<close>

theorem normalize_wildcard_suffix:
  assumes "endswith (code ing) ''*''"
  shows "code (normalize_wildcard_code ing) =
           rstrip_dash (butlast (code ing)) @ (if allowed_variants ing \<noteq> [] then ''-*'' else ''*'') \<and>
         (if allowed_variants ing = []
          then endswith (code (normalize_wildcard_code ing)) ''*'' \<and>
               \<not> endswith (code (normalize_wildcard_code ing)) ''-*''
          else endswith (code (normalize_wildcard_code ing)) ''-*'')"
  unfolding normalize_code [OF assms]
  using rstrip_dash_no_trailing [of "butlast (code ing)"]
  by (simp add: endswith_dash_star)

text \<open>The theorem at the code \<^verbatim>\<open>game:ingot--*\<close>, without and with an allowed variant.\<close>

theorem normalize_wildcard_suffix_witness:
  "endswith (code (new_ingredient\<lparr>code := ''game:ingot--*''\<rparr>)) ''*'' \<and>
   code (normalize_wildcard_code (new_ingredient\<lparr>code := ''game:ingot--*''\<rparr>)) = ''game:ingot*'' \<and>
   code (normalize_wildcard_code
     (new_ingredient\<lparr>code := ''game:ingot--*'', allowed_variants := [''iron'']\<rparr>)) = ''game:ingot-*''"
proof -
  have e: "endswith (code (new_ingredient\<lparr>code := ''game:ingot--*''\<rparr>)) ''*''"
    by (simp add: endswith_def suffix_def)
  have e2: "endswith (code (new_ingredient\<lparr>code := ''game:ingot--*'', allowed_variants := [''iron'']\<rparr>)) ''*''"
    by (simp add: endswith_def suffix_def)
  have r: "rstrip_dash ''game:ingot--'' = ''game:ingot''" by (simp add: rstrip_dash_def)
  show ?thesis
    using e normalize_wildcard_suffix [OF e] normalize_wildcard_suffix [OF e2]
    by (simp add: new_ingredient_def r)
qed

lemma py_in_pair_append:
  "py_in [x, x] (b @ t) \<longleftrightarrow>
     py_in [x, x] b \<or> py_in [x, x] t \<or> (b \<noteq> [] \<and> t \<noteq> [] \<and> last b = x \<and> hd t = x)"
proof (induction b)
  case Nil
  then show ?case by simp
next
  case (Cons a b)
  show ?case
  proof (cases b)
    case Nil
    then show ?thesis by (cases t) auto
  next
    case (Cons a' b')
    with Cons.IH show ?thesis by auto
  qed
qed

lemma py_in_pair_prefix: "\<not> py_in [x, x] (b @ t) \<Longrightarrow> \<not> py_in [x, x] b"
  by (simp add: py_in_pair_append)

lemma endswith_last: "endswith b [x] \<longleftrightarrow> b \<noteq> [] \<and> last b = x"
  by (cases b rule: rev_cases) (auto simp: endswith_def)

lemma rstrip_dash_fix: "\<not> endswith k ''-'' \<Longrightarrow> rstrip_dash k = k"
proof -
  assume "\<not> endswith k ''-''"
  then have "rev k = [] \<or> hd (rev k) \<noteq> CHR ''-''"
    by (cases k rule: rev_cases) (auto simp: endswith_def)
  then have "dropWhile (\<lambda>c. c = CHR ''-'') (rev k) = rev k"
    by (cases "rev k") auto
  then show ?thesis by (simp add: rstrip_dash_def)
qed

lemma dropWhile_replicate: "dropWhile (\<lambda>c. c = x) (replicate k x @ ys) = dropWhile (\<lambda>c. c = x) ys"
  by (induction k) simp_all

lemma rstrip_dash_replicate: "rstrip_dash (b @ replicate k CHR ''-'') = rstrip_dash b"
  by (simp add: rstrip_dash_def dropWhile_replicate)

lemma rstrip_dash_snoc: "rstrip_dash (b @ ''-'') = rstrip_dash b"
  using rstrip_dash_replicate [of b 1] by simp

lemma rstrip_dash_clean:
  assumes "\<not> py_in [x, x] c"
  shows "\<not> py_in [x, x] (rstrip_dash c)"
proof -
  obtain k where "c = rstrip_dash c @ replicate k (CHR ''-'')"
    using rstrip_dash_decomp by blast
  with assms have "\<not> py_in [x, x] (rstrip_dash c @ replicate k (CHR ''-''))" by simp
  then show ?thesis by (rule py_in_pair_prefix)
qed

lemma butlast_clean: "\<not> py_in [x, x] c \<Longrightarrow> \<not> py_in [x, x] (butlast c)"
proof (cases c rule: rev_cases)
  case Nil
  assume "\<not> py_in [x, x] c"
  with Nil show ?thesis by simp
next
  case (snoc b y)
  assume "\<not> py_in [x, x] c"
  with snoc have "\<not> py_in [x, x] (b @ [y])" by simp
  then have "\<not> py_in [x, x] b" by (rule py_in_pair_prefix)
  with snoc show ?thesis by simp
qed

text \<open>The text that the normaliser keeps: no double dash, no double star, no dash or star at its end.\<close>

lemma core_clean:
  assumes "sound c"
  shows "\<not> py_in ''--'' (core c)" "\<not> py_in ''**'' (core c)"
    "\<not> endswith (core c) ''*''" "\<not> endswith (core c) ''-''"
proof -
  from assms have d: "\<not> py_in ''--'' c" and s: "\<not> py_in ''**'' c"
    and e: "\<not> endswith (core c) ''*''" by (simp_all add: sound_def)
  have "\<not> py_in ''--'' (if endswith c ''*'' then butlast c else c)"
    using d butlast_clean [of "CHR ''-''" c] by simp
  then show "\<not> py_in ''--'' (core c)"
    unfolding core_def by (rule rstrip_dash_clean)
  have "\<not> py_in ''**'' (if endswith c ''*'' then butlast c else c)"
    using s butlast_clean [of "CHR ''*''" c] by simp
  then show "\<not> py_in ''**'' (core c)"
    unfolding core_def by (rule rstrip_dash_clean)
  show "\<not> endswith (core c) ''*''" by (rule e)
  show "\<not> endswith (core c) ''-''" unfolding core_def by (rule rstrip_dash_no_trailing)
qed

lemma sound_suffixed:
  assumes "\<not> py_in ''--'' k" "\<not> py_in ''**'' k" "\<not> endswith k ''*''" "\<not> endswith k ''-''"
  shows "sound (k @ ''*'')" and "sound (k @ ''-*'')"
proof -
  have l: "k = [] \<or> (last k \<noteq> CHR ''*'' \<and> last k \<noteq> CHR ''-'')"
    using assms(3,4) by (auto simp: endswith_last)
  have r: "rstrip_dash k = k" using assms(4) by (rule rstrip_dash_fix)
  have c1: "core (k @ ''*'') = k" by (simp add: core_def r)
  have e2: "endswith (k @ ''-*'') ''*''" by (simp add: endswith_def suffix_def)
  have "butlast (k @ ''-*'') = k @ ''-''" by (simp add: butlast_append)
  then have c2: "core (k @ ''-*'') = k"
    unfolding core_def using e2 by (simp add: rstrip_dash_snoc r)
  show "sound (k @ ''*'')"
    unfolding sound_def c1 py_in_pair_append using assms l by auto
  show "sound (k @ ''-*'')"
    unfolding sound_def c2 py_in_pair_append using assms l by auto
qed

lemma normalize_sound:
  assumes "sound (code ing)"
  shows "sound (code (normalize_wildcard_code ing))"
proof (cases "endswith (code ing) ''*''")
  case False
  with assms show ?thesis by (simp add: normalize_wildcard_code_def)
next
  case True
  then have c: "rstrip_dash (butlast (code ing)) = core (code ing)" by (simp add: core_def)
  note k = core_clean [OF assms]
  show ?thesis
    unfolding normalize_code [OF True] c
    using sound_suffixed [OF k] by (simp split: if_split)
qed

lemma star_on_sound:
  assumes "sound (code ing)"
  shows "sound (code (if \<not> endswith (code ing) ''*'' then ing\<lparr>code := code ing @ ''*''\<rparr> else ing))"
proof (cases "endswith (code ing) ''*''")
  case True
  with assms show ?thesis by simp
next
  case False
  let ?c = "code ing"
  from assms have d: "\<not> py_in ''--'' ?c" and s: "\<not> py_in ''**'' ?c"
    and e: "\<not> endswith (core ?c) ''*''" by (simp_all add: sound_def)
  have l: "?c = [] \<or> last ?c \<noteq> CHR ''*''" using False by (auto simp: endswith_last)
  have c: "core (?c @ ''*'') = core ?c" using False by (simp add: core_def)
  have "sound (?c @ ''*'')"
    unfolding sound_def c py_in_pair_append using d s e l by auto
  with False show ?thesis by simp
qed

lemma star_off_sound:
  assumes "sound (code ing)"
  shows "sound (code (if endswith (code ing) ''*'' then ing\<lparr>code := butlast (code ing)\<rparr> else ing))"
proof (cases "endswith (code ing) ''*''")
  case False
  with assms show ?thesis by simp
next
  case True
  let ?c = "code ing"
  from assms have d: "\<not> py_in ''--'' ?c" and s: "\<not> py_in ''**'' ?c"
    and e: "\<not> endswith (core ?c) ''*''" by (simp_all add: sound_def)
  from True have cb: "?c = butlast ?c @ ''*''" by (rule endswith_star_butlast)
  have nb: "\<not> endswith (butlast ?c) ''*''"
  proof
    assume "endswith (butlast ?c) ''*''"
    then have "butlast ?c \<noteq> [] \<and> last (butlast ?c) = CHR ''*''" by (simp add: endswith_last)
    then have "py_in ''**'' (butlast ?c @ ''*'')" by (simp add: py_in_pair_append)
    with cb s show False by simp
  qed
  have c: "core (butlast ?c) = core ?c" using True nb by (simp add: core_def)
  have "sound (butlast ?c)"
    unfolding sound_def c
    using e butlast_clean [of "CHR ''-''" ?c, OF d] butlast_clean [of "CHR ''*''" ?c, OF s] by simp
  with True show ?thesis by simp
qed

lemma apply_wildcard_sound:
  assumes "sound (code ing)"
  shows "sound (code (apply_wildcard b ing))"
proof (cases "code ing = []")
  case True
  with assms show ?thesis by (simp add: apply_wildcard_def)
next
  case False
  show ?thesis
  proof (cases b)
    case True
    have "sound (code (normalize_wildcard_code
        (if \<not> endswith (code ing) ''*'' then ing\<lparr>code := code ing @ ''*''\<rparr> else ing)))"
      using assms by (intro normalize_sound star_on_sound)
    with True False show ?thesis by (simp add: apply_wildcard_def)
  next
    case no: False
    have "sound (code (if endswith (code ing) ''*'' then ing\<lparr>code := butlast (code ing)\<rparr> else ing))"
      using assms by (rule star_off_sound)
    with no False show ?thesis by (simp add: apply_wildcard_def)
  qed
qed

lemma summary_sound:
  "slot_sound a \<Longrightarrow> slot_sound (update_variants_summary a (selected a) options)"
proof -
  assume "slot_sound a"
  then obtain ing where i: "grid_items a (selected a) = Some ing" and g: "sound (code ing)"
    by (auto simp: slot_sound_def)
  have "sound (code (normalize_wildcard_code (ing\<lparr>allowed_variants := []\<rparr>)))"
    using g by (intro normalize_sound) simp
  then show ?thesis
    using i g by (simp add: update_variants_summary_def slot_sound_def Let_def)
qed

lemma variant_ui_sound: "slot_sound a \<Longrightarrow> slot_sound (update_variant_ui a)"
proof -
  assume s: "slot_sound a"
  then obtain ing where i: "grid_items a (selected a) = Some ing"
    by (auto simp: slot_sound_def)
  show ?thesis
    using s i summary_sound [OF s] by (simp add: update_variant_ui_def Let_def)
qed

lemma put_sound:
  "sound (code ing) \<Longrightarrow> slot_sound (a\<lparr>grid_items := (grid_items a)(selected a := Some ing)\<rparr>)"
  by (simp add: slot_sound_def)

lemma side_apply_sound: "slot_sound a \<Longrightarrow> slot_sound (side_apply a)"
proof -
  assume "slot_sound a"
  then obtain ing where i: "grid_items a (selected a) = Some ing" and g: "sound (code ing)"
    by (auto simp: slot_sound_def)
  let ?ing = "apply_wildcard (wildcard_var a)
      (ing\<lparr>is_tool := is_tool_var a,
           tool_cost := (case py_int (tool_cost_var a) of None \<Rightarrow> 0 | Some n \<Rightarrow> max 0 n),
           quantity := (case py_int (qty_var a) of None \<Rightarrow> 1 | Some n \<Rightarrow> max 1 n)\<rparr>)"
  have "sound (code ?ing)" using g by (intro apply_wildcard_sound) simp
  then have "slot_sound (update_variant_ui (a\<lparr>grid_items := (grid_items a)(selected a := Some ?ing)\<rparr>))"
    by (intro variant_ui_sound put_sound)
  then show ?thesis using i by (simp add: side_apply_def Let_def)
qed

lemma dialog_sound: "slot_sound a \<Longrightarrow> slot_sound (variants_dialog_ok a (selected a) options checked)"
proof -
  assume "slot_sound a"
  then obtain ing where i: "grid_items a (selected a) = Some ing" and g: "sound (code ing)"
    by (auto simp: slot_sound_def)
  let ?i1 = "ing\<lparr>allowed_variants := map fst (filter snd (zip options checked))\<rparr>"
  let ?i2 = "if wildcard_var a then
               normalize_wildcard_code
                 (if \<not> endswith (code ?i1) ''*'' then ?i1\<lparr>code := code ?i1 @ ''*''\<rparr> else ?i1)
             else ?i1"
  have g1: "sound (code ?i1)" using g by simp
  have "sound (code (normalize_wildcard_code
                 (if \<not> endswith (code ?i1) ''*'' then ?i1\<lparr>code := code ?i1 @ ''*''\<rparr> else ?i1)))"
    using g1 by (intro normalize_sound star_on_sound)
  with g1 have "sound (code ?i2)" by simp
  then have "slot_sound (a\<lparr>grid_items := (grid_items a)(selected a := Some ?i2)\<rparr>)"
    by (rule put_sound)
  then have "slot_sound (update_variants_summary
      (a\<lparr>grid_items := (grid_items a)(selected a := Some ?i2)\<rparr>)
      (selected (a\<lparr>grid_items := (grid_items a)(selected a := Some ?i2)\<rparr>)) options)"
    by (rule summary_sound)
  then show ?thesis using i by (simp add: variants_dialog_ok_def Let_def)
qed

lemma step_sound: "slot_sound a \<Longrightarrow> slot_sound (wildcard_step op a)"
proof (cases op)
  case (Toggle b)
  assume "slot_sound a"
  then have "slot_sound (a\<lparr>wildcard_var := b\<rparr>)" by (simp add: slot_sound_def)
  then show ?thesis unfolding Toggle wildcard_step.simps by (rule side_apply_sound)
next
  case (Choose options checked)
  assume "slot_sound a"
  then show ?thesis unfolding Choose wildcard_step.simps by (rule dialog_sound)
qed

lemma run_sound: "slot_sound a \<Longrightarrow> slot_sound (fold wildcard_step ops a)"
  by (induction ops arbitrary: a) (simp_all add: step_sound)

lemma funpow_sound:
  "sound (code x) \<Longrightarrow> sound (code ((normalize_wildcard_code ^^ n) x))"
  by (induction n) (simp_all add: normalize_sound)

lemma normalize_from_garbage:
  assumes "\<not> py_in ''--'' b" "\<not> py_in ''**'' b" "\<not> endswith (rstrip_dash b) ''*''"
  shows "sound (code (normalize_wildcard_code (x\<lparr>code := b @ replicate k CHR ''-'' @ ''*''\<rparr>)))"
proof -
  let ?x = "x\<lparr>code := b @ replicate k CHR ''-'' @ ''*''\<rparr>"
  have e: "endswith (code ?x) ''*''" by (simp add: endswith_def suffix_def)
  have bl: "butlast (code ?x) = b @ replicate k CHR ''-''"
    by (simp add: butlast_append)
  note k = rstrip_dash_clean [OF assms(1)] rstrip_dash_clean [OF assms(2)] assms(3)
    rstrip_dash_no_trailing [of b]
  show ?thesis unfolding normalize_code [OF e] bl rstrip_dash_replicate
    using sound_suffixed [OF k] by (simp split: if_split)
qed

text \<open>
  C4, as the code has it. Take the selected slot's ingredient with a code that has no
  trailing star, no double dash and no double star, and no star before its trailing dashes.
  After any sequence of wildcard toggles and variant choices, the code has no double dash
  and no double star; the sequence is arbitrary, so this holds at every point of it. And
  the normaliser, run once or more on a code \<open>b\<close>, any number of dashes, and a star, gives a
  code without double dash and double star, when \<open>b\<close> has none and has no star before its
  trailing dashes.
\<close>

theorem wildcard_ops_keep_code_tidy:
  "(grid_items a (selected a) = Some ing \<and> \<not> endswith (code ing) ''*'' \<and>
    \<not> py_in ''--'' (code ing) \<and> \<not> py_in ''**'' (code ing) \<and>
    \<not> endswith (rstrip_dash (code ing)) ''*'' \<longrightarrow>
      \<not> py_in ''--'' (selected_code (fold wildcard_step ops a)) \<and>
      \<not> py_in ''**'' (selected_code (fold wildcard_step ops a))) \<and>
   (\<not> py_in ''--'' b \<and> \<not> py_in ''**'' b \<and> \<not> endswith (rstrip_dash b) ''*'' \<longrightarrow>
      \<not> py_in ''--'' (code ((normalize_wildcard_code ^^ Suc n) (x\<lparr>code := b @ replicate k CHR ''-'' @ ''*''\<rparr>))) \<and>
      \<not> py_in ''**'' (code ((normalize_wildcard_code ^^ Suc n) (x\<lparr>code := b @ replicate k CHR ''-'' @ ''*''\<rparr>))))"
proof (intro conjI impI)
  assume h: "grid_items a (selected a) = Some ing \<and> \<not> endswith (code ing) ''*'' \<and>
    \<not> py_in ''--'' (code ing) \<and> \<not> py_in ''**'' (code ing) \<and>
    \<not> endswith (rstrip_dash (code ing)) ''*''"
  then have "sound (code ing)" by (simp add: sound_def core_def)
  with h have "slot_sound a" by (auto simp: slot_sound_def)
  then have "slot_sound (fold wildcard_step ops a)" by (rule run_sound)
  then have t: "sound (selected_code (fold wildcard_step ops a))"
    by (auto simp: slot_sound_def selected_code_def)
  from t show "\<not> py_in ''--'' (selected_code (fold wildcard_step ops a))" by (simp add: sound_def)
  from t show "\<not> py_in ''**'' (selected_code (fold wildcard_step ops a))" by (simp add: sound_def)
next
  let ?x = "x\<lparr>code := b @ replicate k CHR ''-'' @ ''*''\<rparr>"
  assume "\<not> py_in ''--'' b \<and> \<not> py_in ''**'' b \<and> \<not> endswith (rstrip_dash b) ''*''"
  then have "sound (code (normalize_wildcard_code ?x))" by (intro normalize_from_garbage) simp_all
  then have "sound (code ((normalize_wildcard_code ^^ n) (normalize_wildcard_code ?x)))"
    by (rule funpow_sound)
  then have t: "sound (code ((normalize_wildcard_code ^^ Suc n) ?x))"
    by (simp only: funpow_Suc_right o_apply)
  from t show "\<not> py_in ''--'' (code ((normalize_wildcard_code ^^ Suc n) ?x))" by (simp add: sound_def)
  from t show "\<not> py_in ''**'' (code ((normalize_wildcard_code ^^ Suc n) ?x))" by (simp add: sound_def)
qed

text \<open>
  The theorem at the code \<^verbatim>\<open>game:ingot\<close>, set on the first slot of the initial state: the
  wildcard is switched on, the variant \<^verbatim>\<open>iron\<close> is chosen, and the check box is applied again.
\<close>

theorem wildcard_ops_keep_code_tidy_witness:
  "selected_code (set_cell_item (init_app [''game:ingot-'' \<mapsto> {''copper'', ''iron''}]) (0, 0) ''game:ingot'')
     = ''game:ingot'' \<and>
   selected_code (fold wildcard_step
       [Toggle True, Choose [''copper'', ''iron''] [False, True], Toggle True]
       (set_cell_item (init_app [''game:ingot-'' \<mapsto> {''copper'', ''iron''}]) (0, 0) ''game:ingot''))
     = ''game:ingot-*'' \<and>
   \<not> py_in ''--'' ''game:ingot-*'' \<and> \<not> py_in ''**'' ''game:ingot-*'' \<and>
   \<not> py_in ''--'' (code ((normalize_wildcard_code ^^ Suc 1) (new_ingredient\<lparr>code := ''game:ingot'' @ replicate 3 CHR ''-'' @ ''*''\<rparr>)))"
proof -
  let ?a = "set_cell_item (init_app [''game:ingot-'' \<mapsto> {''copper'', ''iron''}]) (0, 0) ''game:ingot''"
  let ?ops = "[Toggle True, Choose [''copper'', ''iron''] [False, True], Toggle True]"
  let ?i = "new_ingredient\<lparr>code := ''game:ingot'', symbol := Some ''A''\<rparr>"
  have g: "grid_items ?a (selected ?a) = Some ?i" by code_simp
  have c: "selected_code ?a = ''game:ingot''" by code_simp
  have r: "selected_code (fold wildcard_step ?ops ?a) = ''game:ingot-*''" by code_simp
  have h: "\<not> endswith (code ?i) ''*'' \<and> \<not> py_in ''--'' (code ?i) \<and> \<not> py_in ''**'' (code ?i) \<and>
      \<not> endswith (rstrip_dash (code ?i)) ''*''" by code_simp
  have hb: "\<not> py_in ''--'' ''game:ingot'' \<and> \<not> py_in ''**'' ''game:ingot'' \<and>
      \<not> endswith (rstrip_dash ''game:ingot'') ''*''" by code_simp
  show ?thesis
    using wildcard_ops_keep_code_tidy [where a = ?a and ing = ?i and ops = ?ops
        and b = "''game:ingot''" and n = 1 and x = new_ingredient and k = 3] g h hb c r
    by simp
qed

text \<open>
  C4 as stated fails. The code \<^verbatim>\<open>a*-\<close> has no trailing star; switching the wildcard on
  strips the dash and gives \<^verbatim>\<open>a**\<close>. A double dash inside the code, as in \<^verbatim>\<open>a--b\<close>, is kept.
  And the normaliser leaves \<^verbatim>\<open>a**\<close> as it is: it strips dashes, not stars.
\<close>

theorem wildcard_star_before_dash_counterexample:
  "selected_code (set_cell_item (init_app Map.empty) (0, 0) ''a*-'') = ''a*-'' \<and>
   \<not> endswith ''a*-'' ''*'' \<and>
   selected_code (wildcard_step (Toggle True) (set_cell_item (init_app Map.empty) (0, 0) ''a*-''))
     = ''a**'' \<and>
   selected_code (wildcard_step (Toggle True) (set_cell_item (init_app Map.empty) (0, 0) ''a--b''))
     = ''a--b*'' \<and>
   code (normalize_wildcard_code (new_ingredient\<lparr>code := ''a**''\<rparr>)) = ''a**'' \<and>
   py_in ''**'' ''a**'' \<and> py_in ''--'' ''a--b*''"
  by code_simp

end
